theory Spec2Isabelle
  imports Main "HOL-Library.Sublist"
begin

chapter \<open>The model of the pipeline\<close>

section \<open>Python strings\<close>

text \<open>
  A Python \<^verbatim>\<open>str\<close> is a sequence of Unicode code points and \<^verbatim>\<open>len\<close> counts code
  points. A string is modelled as the list of its code points, so that the bullet glyph
  U+2022 written by the formatter is one character, as in the source. \<open>py\<close> turns an
  ASCII literal into such a list.
\<close>

type_synonym pystr = "nat list"

definition py :: "string \<Rightarrow> pystr" where
  "py s = map of_char s"

text \<open>
  \<^verbatim>\<open>str.isspace\<close>, the class \<^verbatim>\<open>\s\<close> of the \<^verbatim>\<open>re\<close> module on \<^verbatim>\<open>str\<close> patterns and the
  characters that \<^verbatim>\<open>str.strip()\<close> removes are the same set: the Unicode white space
  code points U+0009..U+000D, U+001C..U+0020, U+0085, U+00A0, U+1680, U+2000..U+200A,
  U+2028, U+2029, U+202F, U+205F and U+3000.
\<close>

definition isspace :: "nat \<Rightarrow> bool" where
  "isspace c = ((9 \<le> c \<and> c \<le> 13) \<or> (28 \<le> c \<and> c \<le> 32) \<or> c = 133 \<or> c = 160
     \<or> c = 5760 \<or> (8192 \<le> c \<and> c \<le> 8202) \<or> c = 8232 \<or> c = 8233 \<or> c = 8239
     \<or> c = 8287 \<or> c = 12288)"

definition lstrip :: "pystr \<Rightarrow> pystr" where
  "lstrip s = dropWhile isspace s"

definition rstrip :: "pystr \<Rightarrow> pystr" where
  "rstrip s = rev (dropWhile isspace (rev s))"

definition strip :: "pystr \<Rightarrow> pystr" where
  "strip s = rstrip (lstrip s)"

section \<open>The sheet formatter\<close>

text \<open>
  \<^verbatim>\<open>format_for_google_sheets\<close> (both batch processors carry the same body) applies three
  regular-expression substitutions, caps the length and strips the result. Each
  substitution is modelled by the left-to-right scan that \<^verbatim>\<open>re.sub\<close> performs.

  \<^verbatim>\<open>re.sub(r'\n\s*\n', '\n', text)\<close>: at a line feed, the greedy \<^verbatim>\<open>\s*\<close> runs over the
  whole white space that follows and backtracks to the last line feed in it.
  \<open>after_blank s\<close> is the text after that last line feed, if the white space at the
  head of \<open>s\<close> holds one.
\<close>

fun after_blank :: "pystr \<Rightarrow> pystr option" where
  "after_blank [] = None"
| "after_blank (c # s) =
     (if isspace c
      then (case after_blank s of
              Some r \<Rightarrow> Some r
            | None \<Rightarrow> if c = 10 then Some s else None)
      else None)"

lemma after_blank_length: "after_blank s = Some r \<Longrightarrow> length r \<le> length s"
  by (induction s arbitrary: r) (auto split: if_splits option.splits simp: le_Suc_eq)

function sub_blank_lines :: "pystr \<Rightarrow> pystr" where
  "sub_blank_lines [] = []"
| "sub_blank_lines (c # s) =
     (if c = 10
      then (case after_blank s of
              Some r \<Rightarrow> 10 # sub_blank_lines r
            | None \<Rightarrow> c # sub_blank_lines s)
      else c # sub_blank_lines s)"
  by pat_completeness auto

termination
  by (relation "measure length") (auto dest: after_blank_length simp: less_Suc_eq_le)

text \<open>
  \<^verbatim>\<open>re.sub(r'[ \t]+', ' ', text)\<close>: every maximal run of spaces and tabs becomes one
  space.
\<close>

definition blank :: "nat \<Rightarrow> bool" where
  "blank c = (c = 32 \<or> c = 9)"

function sub_spaces :: "pystr \<Rightarrow> pystr" where
  "sub_spaces [] = []"
| "sub_spaces (c # s) =
     (if blank c then 32 # sub_spaces (dropWhile blank s) else c # sub_spaces s)"
  by pat_completeness auto

termination
  by (relation "measure length") (auto simp: less_Suc_eq_le length_dropWhile_le)

text \<open>
  \<^verbatim>\<open>re.sub(r'^\s*-\s*', '\<bullet> ', text, flags=re.MULTILINE)\<close>, with the bullet glyph U+2022
  (code point 8226) in the replacement: \<^verbatim>\<open>^\<close> matches at the start of the text and after
  every line feed; both \<^verbatim>\<open>\s*\<close> may run over line feeds. The flag of \<open>sub_bullets\<close>
  says whether the scan stands at the start of a line: after a match it does when the
  last character the match consumed is a line feed.
\<close>

definition dash_next :: "pystr \<Rightarrow> bool" where
  "dash_next s = (case dropWhile isspace s of [] \<Rightarrow> False | d # r \<Rightarrow> d = 45)"

definition after_dash :: "pystr \<Rightarrow> pystr" where
  "after_dash s = tl (dropWhile isspace s)"

definition ends_line :: "pystr \<Rightarrow> bool" where
  "ends_line w = (w \<noteq> [] \<and> last w = 10)"

function sub_bullets :: "bool \<Rightarrow> pystr \<Rightarrow> pystr" where
  "sub_bullets bol [] = []"
| "sub_bullets bol (c # s) =
     (if bol \<and> dash_next (c # s)
      then 8226 # 32 # sub_bullets (ends_line (takeWhile isspace (after_dash (c # s))))
                                  (dropWhile isspace (after_dash (c # s)))
      else c # sub_bullets (c = 10) s)"
  by pat_completeness auto

termination
proof (relation "measure (\<lambda>(b, s). length s)", goal_cases)
  case 1
  show ?case by simp
next
  case (2 bol c s)
  have "length (dropWhile isspace (tl (dropWhile isspace (c # s))))
          \<le> length (tl (dropWhile isspace (c # s)))"
    by (rule length_dropWhile_le)
  moreover from 2 have "dropWhile isspace (c # s) \<noteq> []"
    unfolding dash_next_def by (cases "dropWhile isspace (c # s)") simp_all
  then have "length (tl (dropWhile isspace (c # s))) < length (dropWhile isspace (c # s))"
    by (cases "dropWhile isspace (c # s)") auto
  moreover have "length (dropWhile isspace (c # s)) \<le> length (c # s)"
    by (rule length_dropWhile_le)
  ultimately show ?case by (simp add: after_dash_def)
next
  case 3
  show ?case by simp
qed

text \<open>
  The cap and the final strip. \<open>normalise_text\<close> names the text after the three
  substitutions, which is what the source compares with 45000. A missing text
  (\<^verbatim>\<open>None\<close>) and the empty string are both falsy and give the empty string.
\<close>

definition truncation_marker :: pystr where
  "truncation_marker = 10 # 10 # py ''[Summary truncated due to length]''"

definition normalise_text :: "pystr \<Rightarrow> pystr" where
  "normalise_text text = sub_bullets True (sub_spaces (sub_blank_lines text))"

definition cap_text :: "pystr \<Rightarrow> pystr" where
  "cap_text text = (if length text > 45000 then take 45000 text @ truncation_marker else text)"

definition format_for_google_sheets :: "pystr option \<Rightarrow> pystr" where
  "format_for_google_sheets text =
     (case text of
        None \<Rightarrow> []
      | Some t \<Rightarrow> if t = [] then [] else strip (cap_text (normalise_text t)))"

subsection \<open>Normal forms of the three substitutions\<close>

text \<open>
  Three predicates say that a text holds no match of the respective pattern:
  \<open>has_newline s\<close> holds when the white space at the head of \<open>s\<close> contains a line
  feed, so \<open>no_blank_lines\<close> says that no line feed is followed by white space with
  another line feed; \<open>single_spaced\<close> that there is no tab and no two adjacent blanks;
  \<open>no_bullets\<close> that no line start is followed by white space and a dash.
\<close>

fun has_newline :: "pystr \<Rightarrow> bool" where
  "has_newline [] = False"
| "has_newline (c # s) = (isspace c \<and> (c = 10 \<or> has_newline s))"

fun no_blank_lines :: "pystr \<Rightarrow> bool" where
  "no_blank_lines [] = True"
| "no_blank_lines (c # s) = ((c = 10 \<longrightarrow> \<not> has_newline s) \<and> no_blank_lines s)"

fun single_spaced :: "pystr \<Rightarrow> bool" where
  "single_spaced [] = True"
| "single_spaced (c # s) =
     (c \<noteq> 9 \<and> (c = 32 \<longrightarrow> s = [] \<or> \<not> blank (hd s)) \<and> single_spaced s)"

fun no_bullets :: "bool \<Rightarrow> pystr \<Rightarrow> bool" where
  "no_bullets bol [] = True"
| "no_bullets bol (c # s) = (\<not> (bol \<and> dash_next (c # s)) \<and> no_bullets (c = 10) s)"

section \<open>The link classifier\<close>

text \<open>
  \<^verbatim>\<open>_is_pdf_url\<close> has the same body in \<^verbatim>\<open>google_sheets_reader.py\<close> and
  \<^verbatim>\<open>papers_processor.py\<close>. Its argument is any Python value: \<open>PyObj t\<close> stands for a
  value of a type other than \<^verbatim>\<open>str\<close>, \<^verbatim>\<open>int\<close> and \<^verbatim>\<open>NoneType\<close>, and \<open>t\<close> is what its truth
  test does: it gives a truth value, or it raises (as \<^verbatim>\<open>pandas.NA\<close> does with
  \<^verbatim>\<open>TypeError\<close> and an array of several elements with \<^verbatim>\<open>ValueError\<close>). A raised
  exception is the left injection of a result. The guard evaluates \<^verbatim>\<open>not url\<close> first,
  so a raising truth test makes the classifier raise.
\<close>

datatype py_error = ValueError | TypeError

datatype py_value = PyNone | PyStr pystr | PyInt int | PyObj "py_error + bool"

fun truthy :: "py_value \<Rightarrow> py_error + bool" where
  "truthy PyNone = Inr False"
| "truthy (PyStr s) = Inr (s \<noteq> [])"
| "truthy (PyInt n) = Inr (n \<noteq> 0)"
| "truthy (PyObj t) = t"

fun isinstance_str :: "py_value \<Rightarrow> bool" where
  "isinstance_str (PyStr s) = True"
| "isinstance_str v = False"

text \<open>
  \<^verbatim>\<open>str.lower\<close> on the ASCII letters. The code points beyond ASCII are left as they are:
  none of them lower-cases to a text with one of the characters of \<^verbatim>\<open>.pdf\<close>, so the
  classification is the same. \<^verbatim>\<open>endswith\<close> and \<^verbatim>\<open>in\<close> are the suffix and the contiguous
  sublist relation.
\<close>

definition lower_char :: "nat \<Rightarrow> nat" where
  "lower_char c = (if 65 \<le> c \<and> c \<le> 90 then c + 32 else c)"

definition lower :: "pystr \<Rightarrow> pystr" where
  "lower s = map lower_char s"

definition endswith :: "pystr \<Rightarrow> pystr \<Rightarrow> bool" where
  "endswith s suf = suffix suf s"

definition contains :: "pystr \<Rightarrow> pystr \<Rightarrow> bool" where
  "contains pat s = sublist pat s"

subsection \<open>The path component of urllib.parse.urlparse\<close>

text \<open>
  The classifier calls the standard library's \<^verbatim>\<open>urlparse\<close> and reads \<^verbatim>\<open>.path\<close>. The model
  follows \<^verbatim>\<open>urlsplit\<close> and \<^verbatim>\<open>urlparse\<close> of CPython 3.11.10 step by step: leading C0
  control characters and spaces are stripped, tab, carriage return and line feed are removed
  everywhere, a scheme is split off at the first colon, a network location after
  \<^verbatim>\<open>//\<close> runs to the first of \<^verbatim>\<open>/ ? #\<close>, a network location with an unmatched square
  bracket raises \<^verbatim>\<open>ValueError\<close>, the fragment and the query are cut off, and for the
  schemes of \<^verbatim>\<open>uses_params\<close> the parameters of the last path segment are cut off.
  The two further validators of the network location (\<^verbatim>\<open>_check_bracketed_host\<close>, which
  parses an IP literal, and \<^verbatim>\<open>_checknetloc\<close>, which normalises to NFKC) also raise
  \<^verbatim>\<open>ValueError\<close>; they are taken together as the parameter \<open>netloc_ok\<close>.
\<close>

definition c0_control_or_space :: "nat \<Rightarrow> bool" where
  "c0_control_or_space c = (c \<le> 32)"

definition unsafe_url_char :: "nat \<Rightarrow> bool" where
  "unsafe_url_char c = (c = 9 \<or> c = 13 \<or> c = 10)"

definition ascii_alpha :: "nat \<Rightarrow> bool" where
  "ascii_alpha c = ((65 \<le> c \<and> c \<le> 90) \<or> (97 \<le> c \<and> c \<le> 122))"

definition scheme_char :: "nat \<Rightarrow> bool" where
  "scheme_char c = (ascii_alpha c \<or> (48 \<le> c \<and> c \<le> 57) \<or> c = 43 \<or> c = 45 \<or> c = 46)"

definition uses_params :: "pystr list" where
  "uses_params = map py ['''', ''ftp'', ''hdl'', ''prospero'', ''http'', ''imap'', ''https'',
     ''shttp'', ''rtsp'', ''rtsps'', ''rtspu'', ''sip'', ''sips'', ''mms'', ''sftp'', ''tel'']"

definition split_scheme :: "pystr \<Rightarrow> pystr \<times> pystr" where
  "split_scheme url =
     (let pre = takeWhile (\<lambda>c. c \<noteq> 58) url in
      if 58 \<in> set url \<and> pre \<noteq> [] \<and> ascii_alpha (hd url) \<and> list_all scheme_char pre
      then (lower pre, drop (length pre + 1) url)
      else ([], url))"

definition netloc_delim :: "nat \<Rightarrow> bool" where
  "netloc_delim c = (c = 47 \<or> c = 63 \<or> c = 35)"

definition splitnetloc :: "pystr \<Rightarrow> pystr \<times> pystr" where
  "splitnetloc url =
     (takeWhile (\<lambda>c. \<not> netloc_delim c) (drop 2 url),
      dropWhile (\<lambda>c. \<not> netloc_delim c) (drop 2 url))"

definition splitparams :: "pystr \<Rightarrow> pystr" where
  "splitparams url =
     (if 47 \<in> set url
      then rev (dropWhile (\<lambda>c. c \<noteq> 47) (rev url))
           @ takeWhile (\<lambda>c. c \<noteq> 59) (rev (takeWhile (\<lambda>c. c \<noteq> 47) (rev url)))
      else takeWhile (\<lambda>c. c \<noteq> 59) url)"

definition urlsplit_path :: "(pystr \<Rightarrow> bool) \<Rightarrow> pystr \<Rightarrow> py_error + (pystr \<times> pystr)" where
  "urlsplit_path netloc_ok url0 =
     (let url1 = filter (\<lambda>c. \<not> unsafe_url_char c) (dropWhile c0_control_or_space url0);
          (scheme, url2) = split_scheme url1
      in if take 2 url2 = py ''//''
         then (let (netloc, url3) = splitnetloc url2
               in if (91 \<in> set netloc \<and> 93 \<notin> set netloc) \<or> (93 \<in> set netloc \<and> 91 \<notin> set netloc)
                  then Inl ValueError
                  else if \<not> netloc_ok netloc then Inl ValueError
                  else Inr (scheme, takeWhile (\<lambda>c. c \<noteq> 63) (takeWhile (\<lambda>c. c \<noteq> 35) url3)))
         else Inr (scheme, takeWhile (\<lambda>c. c \<noteq> 63) (takeWhile (\<lambda>c. c \<noteq> 35) url2)))"

definition urlparse_path :: "(pystr \<Rightarrow> bool) \<Rightarrow> pystr \<Rightarrow> py_error + pystr" where
  "urlparse_path netloc_ok url =
     (case urlsplit_path netloc_ok url of
        Inl e \<Rightarrow> Inl e
      | Inr (scheme, path) \<Rightarrow>
          if scheme \<in> set uses_params \<and> 59 \<in> set path then Inr (splitparams path) else Inr path)"

text \<open>\<open>any_netloc\<close> is the validator that accepts every network location.\<close>

definition any_netloc :: "pystr \<Rightarrow> bool" where
  "any_netloc netloc = True"

definition pdf_patterns :: "pystr list" where
  "pdf_patterns = map py [''pdf'', ''/pdf/'', ''format=pdf'', ''type=pdf'', ''filetype=pdf'',
     ''download=pdf'']"

definition is_pdf_url :: "(pystr \<Rightarrow> bool) \<Rightarrow> py_value \<Rightarrow> py_error + bool" where
  "is_pdf_url netloc_ok url =
     (case truthy url of
        Inl e \<Rightarrow> Inl e
      | Inr true \<Rightarrow>
          if \<not> true \<or> \<not> isinstance_str url then Inr False
          else (case url of
                  PyStr u \<Rightarrow>
                    (case urlparse_path netloc_ok u of
                       Inl e \<Rightarrow> Inl e
                     | Inr path \<Rightarrow>
                         if endswith (lower path) (py ''.pdf'') then Inr True
                         else Inr (list_ex (\<lambda>pattern. contains pattern (lower u)) pdf_patterns))
                | _ \<Rightarrow> Inr False))"

section \<open>The table\<close>

text \<open>
  The pandas \<^verbatim>\<open>DataFrame\<close> read from the sheet: an ordered list of column names and a
  list of rows, indexed from 0. A cell is a string or a missing value (\<^verbatim>\<open>None\<close>/\<^verbatim>\<open>NaN\<close>, for
  a sheet row shorter than the header). A row gives the cell of every column name; it
  is read only at the names in \<open>columns\<close>, which are taken to be distinct (for a
  repeated name pandas yields a sub-frame, not a cell). \<open>set_column\<close> is the
  assignment \<^verbatim>\<open>df[col] = v\<close> of one string to a whole column: it overwrites a column of
  that name and appends the column otherwise. \<open>df_empty\<close> is \<^verbatim>\<open>df.empty\<close>.
\<close>

datatype cell = NaN | Str pystr

type_synonym row = "pystr \<Rightarrow> cell"

record dataframe =
  columns :: "pystr list"
  rows :: "row list"

definition df_empty :: "dataframe \<Rightarrow> bool" where
  "df_empty df = (columns df = [] \<or> rows df = [])"

definition set_column :: "dataframe \<Rightarrow> pystr \<Rightarrow> pystr \<Rightarrow> dataframe" where
  "set_column df col v =
     df\<lparr>columns := (if col \<in> set (columns df) then columns df else columns df @ [col]),
        rows := map (\<lambda>r. r(col := Str v)) (rows df)\<rparr>"

section \<open>The row reconciler\<close>

text \<open>
  The merge of \<^verbatim>\<open>update_google_sheet_with_methodology\<close> (the same in both batch
  processors): the column \<^verbatim>\<open>Methodology\<close> is set to the empty string, then every row
  whose \<^verbatim>\<open>PDF ID\<close> is present and, stripped, a key of the summaries gets the mapped
  summary. The loop writes only to the row it visits, so it is a map over the rows.
\<close>

definition merge_row :: "bool \<Rightarrow> (pystr \<rightharpoonup> pystr) \<Rightarrow> row \<Rightarrow> row" where
  "merge_row has_id summaries r =
     (if has_id
      then (case r (py ''PDF ID'') of
              NaN \<Rightarrow> r
            | Str s \<Rightarrow>
                (case summaries (strip s) of
                   None \<Rightarrow> r
                 | Some summary \<Rightarrow> r(py ''Methodology'' := Str summary)))
      else r)"

definition merge_methodology :: "dataframe \<Rightarrow> (pystr \<rightharpoonup> pystr) \<Rightarrow> dataframe" where
  "merge_methodology df0 summaries =
     (let df = set_column df0 (py ''Methodology'') []
      in df\<lparr>rows := map (merge_row (py ''PDF ID'' \<in> set (columns df)) summaries) (rows df)\<rparr>)"

section \<open>The sheet write-back\<close>

text \<open>
  \<^verbatim>\<open>update_sheet_with_pdf_info\<close> of \<^verbatim>\<open>google_sheets_reader.py\<close> builds the values (the header
  row, then every row with missing values as empty strings and line feeds and carriage
  returns replaced by spaces) and the range, and sends them to the sheet. \<open>digits\<close> is
  \<^verbatim>\<open>str\<close> of a non-negative integer and \<open>chr\<close> is Python's, which raises outside the code
  point range. The remote store is the parameter \<open>store\<close>: whether it accepts the
  request. Every exception is caught by the source and turned into \<^verbatim>\<open>False\<close>.
  \<open>update_google_sheet_with_methodology\<close> takes the table read from the sheet and
  returns its flag together with the table it saves as the local copy, which it does
  only after a successful write.
\<close>

definition replace_char :: "nat \<Rightarrow> nat \<Rightarrow> pystr \<Rightarrow> pystr" where
  "replace_char old new s = map (\<lambda>c. if c = old then new else c) s"

definition fillna :: "cell \<Rightarrow> cell" where
  "fillna v = (case v of NaN \<Rightarrow> Str [] | Str s \<Rightarrow> Str s)"

definition cell_text :: "cell \<Rightarrow> pystr" where
  "cell_text v = (case fillna v of NaN \<Rightarrow> [] | Str s \<Rightarrow> replace_char 13 32 (replace_char 10 32 s))"

definition data_rows :: "dataframe \<Rightarrow> pystr list list" where
  "data_rows df = map (\<lambda>r. map (\<lambda>c. cell_text (r c)) (columns df)) (rows df)"

definition sheet_values :: "dataframe \<Rightarrow> pystr list list" where
  "sheet_values df = columns df # data_rows df"

fun digits :: "nat \<Rightarrow> pystr" where
  "digits n = (if n < 10 then [48 + n] else digits (n div 10) @ [48 + n mod 10])"

definition chr :: "int \<Rightarrow> py_error + pystr" where
  "chr i = (if 0 \<le> i \<and> i \<le> 1114111 then Inr [nat i] else Inl ValueError)"

definition end_col :: "dataframe \<Rightarrow> py_error + pystr" where
  "end_col df = chr (65 + int (length (columns df)) - 1)"

definition range_name :: "pystr \<Rightarrow> dataframe \<Rightarrow> py_error + pystr" where
  "range_name worksheet_name df =
     (case end_col df of
        Inl e \<Rightarrow> Inl e
      | Inr col \<Rightarrow> Inr (worksheet_name @ py ''!A1:'' @ col @ digits (length (sheet_values df))))"

definition update_request :: "pystr \<Rightarrow> dataframe \<Rightarrow> py_error + (pystr \<times> pystr list list)" where
  "update_request worksheet_name df =
     (case range_name worksheet_name df of
        Inl e \<Rightarrow> Inl e
      | Inr rng \<Rightarrow> Inr (rng, sheet_values df))"

definition update_sheet_with_pdf_info ::
  "(pystr \<times> pystr list list \<Rightarrow> bool) \<Rightarrow> pystr \<Rightarrow> dataframe \<Rightarrow> bool" where
  "update_sheet_with_pdf_info store worksheet_name df =
     (case update_request worksheet_name df of
        Inl e \<Rightarrow> False
      | Inr request \<Rightarrow> store request)"

definition update_google_sheet_with_methodology ::
  "(pystr \<times> pystr list list \<Rightarrow> bool) \<Rightarrow> pystr \<Rightarrow> dataframe \<Rightarrow> (pystr \<rightharpoonup> pystr)
    \<Rightarrow> bool \<times> dataframe option" where
  "update_google_sheet_with_methodology store worksheet_name sheet summaries =
     (if df_empty sheet then (False, None)
      else let df = merge_methodology sheet summaries
           in if update_sheet_with_pdf_info store worksheet_name df then (True, Some df)
              else (False, None))"

subsection \<open>Example tables\<close>

text \<open>
  A sheet that already has a filled \<^verbatim>\<open>Methodology\<close> column, as the sheet has after a first
  run wrote it back.
\<close>

definition summarised_table :: dataframe where
  "summarised_table =
     \<lparr>columns = [py ''PDF ID'', py ''Methodology''],
      rows = [(\<lambda>c. NaN)(py ''PDF ID'' := Str (py ''a1b2c3d4''), py ''Methodology'' := Str (py ''OLD''))]\<rparr>"

text \<open>The example of the specification: two rows, one summary.\<close>

definition spec_table :: dataframe where
  "spec_table =
     \<lparr>columns = [py ''PDF ID'', py ''Methodology''],
      rows = [(\<lambda>c. NaN)(py ''PDF ID'' := Str (py ''a1b2c3d4''), py ''Methodology'' := Str []),
              (\<lambda>c. NaN)(py ''PDF ID'' := Str [], py ''Methodology'' := Str [])]\<rparr>"

definition spec_summaries :: "pystr \<rightharpoonup> pystr" where
  "spec_summaries = [py ''a1b2c3d4'' \<mapsto> py ''SUMMARY'']"

subsection \<open>A wide table\<close>

text \<open>A table of 27 columns and one row.\<close>

definition wide_table :: dataframe where
  "wide_table = \<lparr>columns = map (\<lambda>k. py ''col'' @ digits k) [0..<27], rows = [\<lambda>c. Str []]\<rparr>"

section \<open>The download pass\<close>

text \<open>
  \<^verbatim>\<open>process_links_and_download_pdfs\<close> of \<^verbatim>\<open>google_sheets_reader.py\<close> (and \<^verbatim>\<open>process_pdfs\<close> of
  \<^verbatim>\<open>papers_processor.py\<close>, which has the same loop).

  \<^verbatim>\<open>_generate_unique_id\<close> is \<^verbatim>\<open>str(uuid.uuid4())[:8]\<close>. A UUID is a 128-bit integer and
  its \<^verbatim>\<open>str\<close> is the 32 lower-case hexadecimal digits, grouped 8-4-4-4-12 by hyphens.
\<close>

definition hex_digit :: "nat \<Rightarrow> nat" where
  "hex_digit d = (if d < 10 then 48 + d else 87 + d)"

definition uuid_hex :: "nat \<Rightarrow> pystr" where
  "uuid_hex u = map (\<lambda>k. hex_digit ((u div 16 ^ (31 - k)) mod 16)) [0..<32]"

definition uuid_str :: "nat \<Rightarrow> pystr" where
  "uuid_str u =
     (let h = uuid_hex u
      in take 8 h @ [45] @ take 4 (drop 8 h) @ [45] @ take 4 (drop 12 h) @ [45]
         @ take 4 (drop 16 h) @ [45] @ drop 20 h)"

definition generate_unique_id :: "nat \<Rightarrow> pystr" where
  "generate_unique_id u = take 8 (uuid_str u)"

text \<open>
  What the pass draws from outside: for the row with index \<open>i\<close>, \<open>uuid4 w i\<close> is the
  integer of the UUID drawn while that row is processed and \<open>fetch w i\<close> is the outcome
  of its download: the file was written, a \<^verbatim>\<open>RequestException\<close> was raised (a non-success
  status through \<^verbatim>\<open>raise_for_status\<close>, a timeout, a connection error), or another
  exception was raised. \<^verbatim>\<open>_download_pdf\<close> catches both kinds and returns \<^verbatim>\<open>None\<close>; on success
  it returns the path of the file in the storage directory (written with the POSIX
  separator).
\<close>

datatype fetch_outcome = Fetched | RequestFailed | OtherFailure

record world =
  uuid4 :: "nat \<Rightarrow> nat"
  fetch :: "nat \<Rightarrow> fetch_outcome"
  netloc_ok :: "pystr \<Rightarrow> bool"

definition download_pdf :: "world \<Rightarrow> nat \<Rightarrow> pystr \<Rightarrow> pystr \<Rightarrow> pystr option" where
  "download_pdf w i url unique_id =
     (case fetch w i of
        Fetched \<Rightarrow> Some (py ''papers_pdf_id/'' @ unique_id @ py ''.pdf'')
      | RequestFailed \<Rightarrow> None
      | OtherFailure \<Rightarrow> None)"

text \<open>
  The body of the loop for one row. A missing or blank link skips the row. The
  classifier is called outside any \<^verbatim>\<open>try\<close>: when it raises, the pass raises. The loop
  writes only to the row it visits, so the pass is a recursion over the rows with the
  row index.
\<close>

definition process_row :: "world \<Rightarrow> pystr \<Rightarrow> nat \<Rightarrow> row \<Rightarrow> py_error + row" where
  "process_row w link_column i r =
     (case r link_column of
        NaN \<Rightarrow> Inr r
      | Str url \<Rightarrow>
          if strip url = [] then Inr r
          else (case is_pdf_url (netloc_ok w) (PyStr url) of
                  Inl e \<Rightarrow> Inl e
                | Inr False \<Rightarrow> Inr r
                | Inr True \<Rightarrow>
                    (let unique_id = generate_unique_id (uuid4 w i)
                     in case download_pdf w i url unique_id of
                          Some pdf_path \<Rightarrow>
                            Inr (r(py ''PDF Available'' := Str (py ''Yes''),
                                   py ''PDF ID'' := Str unique_id,
                                   py ''PDF Path'' := Str pdf_path))
                        | None \<Rightarrow> Inr (r(py ''PDF Available'' := Str (py ''Failed''))))))"

fun process_rows :: "world \<Rightarrow> pystr \<Rightarrow> nat \<Rightarrow> row list \<Rightarrow> py_error + row list" where
  "process_rows w link_column i [] = Inr []"
| "process_rows w link_column i (r # rs) =
     (case process_row w link_column i r of
        Inl e \<Rightarrow> Inl e
      | Inr r' \<Rightarrow>
          (case process_rows w link_column (Suc i) rs of
             Inl e \<Rightarrow> Inl e
           | Inr rs' \<Rightarrow> Inr (r' # rs')))"

definition process_links_and_download_pdfs ::
  "world \<Rightarrow> dataframe \<Rightarrow> pystr \<Rightarrow> py_error + dataframe" where
  "process_links_and_download_pdfs w df0 link_column =
     (if link_column \<notin> set (columns df0) then Inr df0
      else let df = set_column (set_column (set_column df0 (py ''PDF Available'') (py ''No''))
                     (py ''PDF ID'') []) (py ''PDF Path'') []
           in case process_rows w link_column 0 (rows df) of
                Inl e \<Rightarrow> Inl e
              | Inr rs \<Rightarrow> Inr (df\<lparr>rows := rs\<rparr>))"

subsection \<open>Predicates on rows\<close>

definition fresh_row :: "row \<Rightarrow> bool" where
  "fresh_row r = (r (py ''PDF Available'') = Str (py ''No'') \<and> r (py ''PDF ID'') = Str []
     \<and> r (py ''PDF Path'') = Str [])"

definition settled_row :: "row \<Rightarrow> bool" where
  "settled_row r =
     ((r (py ''PDF Available'') = Str (py ''Yes'') \<or> r (py ''PDF Available'') = Str (py ''No'')
        \<or> r (py ''PDF Available'') = Str (py ''Failed''))
      \<and> (r (py ''PDF Available'') = Str (py ''Yes'') \<longrightarrow>
            (\<exists>uid. r (py ''PDF ID'') = Str uid \<and> length uid = 8
               \<and> r (py ''PDF Path'') = Str (py ''papers_pdf_id/'' @ uid @ py ''.pdf'')))
      \<and> (r (py ''PDF Available'') = Str (py ''No'') \<or> r (py ''PDF Available'') = Str (py ''Failed'')
            \<longrightarrow> r (py ''PDF ID'') = Str [] \<and> r (py ''PDF Path'') = Str []))"

subsection \<open>The row before the loop\<close>

definition pass_columns :: "pystr list" where
  "pass_columns = [py ''PDF Available'', py ''PDF ID'', py ''PDF Path'']"

definition init_row :: "row \<Rightarrow> row" where
  "init_row r = r(py ''PDF Available'' := Str (py ''No''), py ''PDF ID'' := Str [], py ''PDF Path'' := Str [])"

subsection \<open>A sheet of three links\<close>

text \<open>
  Three rows: a PDF link whose download succeeds, a PDF link whose download fails with
  a transport error, and a link that is not a PDF.
\<close>

definition example_sheet :: dataframe where
  "example_sheet =
     \<lparr>columns = [py ''title'', py ''link''],
      rows = [(\<lambda>c. NaN)(py ''title'' := Str (py ''A''), py ''link'' := Str (py ''https://example.org/paper.pdf'')),
              (\<lambda>c. NaN)(py ''title'' := Str (py ''B''), py ''link'' := Str (py ''https://example.org/lost.pdf'')),
              (\<lambda>c. NaN)(py ''title'' := Str (py ''C''), py ''link'' := Str (py ''https://example.org/page''))]\<rparr>"

definition example_world :: world where
  "example_world =
     \<lparr>uuid4 = (\<lambda>i. 0x3b241101e2bb4255a0fb2d1c3e4f5a6b + i),
      fetch = (\<lambda>i. if i = 1 then RequestFailed else Fetched),
      netloc_ok = any_netloc\<rparr>"

definition example_result :: dataframe where
  "example_result = projr (process_links_and_download_pdfs example_world example_sheet (py ''link''))"

section \<open>The extraction engine\<close>

text \<open>
  \<^verbatim>\<open>batch_direct_upload_processor.py\<close>. The OpenAI client is a capability: the record
  \<open>openai\<close> says, for one document, what each of its calls does. A call that raises is
  \<open>None\<close> (or \<open>False\<close> where the call's result is not used): \<open>files_create\<close> is the
  file id of the upload, \<open>runs_create\<close> the status of the new run, \<open>runs_retrieve k\<close>
  the status the (k+1)-th poll reads, \<open>messages_list\<close> the text of the first response
  message, \<open>chat_completions_create\<close> the content of the completion for a prompt, and
  the two \<open>write\<close> fields whether the summary file could be written. Every function
  returns, with its result, the list of calls it made, in order.
\<close>

datatype call =
    FilesCreate pystr
  | AssistantsCreate
  | ThreadsCreate
  | MessagesCreate pystr
  | RunsCreate
  | RunsRetrieve
  | MessagesList
  | WriteSummary pystr
  | ChatCompletionsCreate pystr pystr

record openai =
  files_create :: "pystr option"
  assistants_create :: bool
  threads_create :: bool
  messages_create :: bool
  runs_create :: "pystr option"
  runs_retrieve :: "nat \<Rightarrow> pystr option"
  messages_list :: "pystr option"
  write_assistants_summary :: bool
  chat_completions_create :: "pystr \<Rightarrow> pystr option"
  write_chat_summary :: bool

text \<open>
  The two messages of the chat completion. The user message is the f-string of
  \<^verbatim>\<open>generate_methodology_summary_with_chat\<close>, with the file id inserted twice.
\<close>

definition join_lines :: "pystr list \<Rightarrow> pystr" where
  "join_lines ls = concat (map (\<lambda>l. l @ [10]) ls)"

definition system_content :: pystr where
  "system_content = py ''You are an expert research analyst who specializes in understanding and summarizing research methodologies from academic papers.''"

definition chat_prompt :: "pystr \<Rightarrow> pystr" where
  "chat_prompt file_id =
     py ''I have uploaded a PDF file with ID: '' @ file_id @ [10]
     @ join_lines [
      [],
      py ''Please analyze this PDF and provide a comprehensive summary of the methodology in the following format:'',
      [],
      py ''1. **Methodology Overview** (2-3 sentences describing the overall approach)'',
      [],
      py ''2. **Key Steps in Bullet Points:**'',
      py ''   - Step 1: [Description]'',
      py ''   - Step 2: [Description]'',
      py ''   - Step 3: [Description]'',
      py ''   - [Continue as needed]'',
      [],
      py ''3. **Methodology Flow:**'',
      py ''   [Describe the logical flow and sequence of the methodology in paragraph form]'',
      [],
      py ''4. **Key Techniques/Tools Used:**'',
      py ''   - [List main techniques, algorithms, or tools used]'',
      [],
      py ''5. **Data Sources/Inputs:**'',
      py ''   - [Describe what data or inputs are used in the methodology]'',
      [],
      py ''6. **Output/Results:**'',
      py ''   - [Describe what the methodology produces or outputs]'',
      [],
      py ''Please focus specifically on the methodology section and make it clear and easy to understand like whats the approach, what are the key steps and architectural framework.'',
      []]
     @ py ''Note: The file ID is '' @ file_id @ py '' - please reference this file in your analysis.''"

text \<open>\<^verbatim>\<open>Path.stem\<close>: the name without its last suffix.\<close>

definition stem :: "pystr \<Rightarrow> pystr" where
  "stem name =
     (let after = takeWhile (\<lambda>c. c \<noteq> 46) (rev name);
          i = length name - 1 - length after
      in if 46 \<in> set name \<and> 0 < i \<and> i < length name - 1 then take i name else name)"

definition summary_filename :: "pystr \<Rightarrow> pystr" where
  "summary_filename pdf_name = stem pdf_name @ py ''_methodology_summary.txt''"

definition upload_pdf_to_openai :: "openai \<Rightarrow> pystr \<Rightarrow> pystr option \<times> call list" where
  "upload_pdf_to_openai api pdf_name = (files_create api, [FilesCreate pdf_name])"

definition pending :: "pystr \<Rightarrow> bool" where
  "pending status = (status \<in> set [py ''queued'', py ''in_progress'', py ''requires_action''])"

text \<open>
  The polling loop of Strategy A: while the status is one of the three pending ones, the
  run is retrieved again. The loop has no bound, so it is a partial function: \<open>None\<close>
  is a loop that never ends. Its result is the last status (or \<open>None\<close> when a poll
  raised) and the number of polls.
\<close>

partial_function (option) wait_for_completion ::
  "(nat \<Rightarrow> pystr option) \<Rightarrow> nat \<Rightarrow> pystr \<Rightarrow> (pystr option \<times> nat) option" where
  "wait_for_completion retrieve k status =
     (if pending status
      then (case retrieve k of
              None \<Rightarrow> Some (None, Suc k)
            | Some status' \<Rightarrow> wait_for_completion retrieve (Suc k) status')
      else Some (Some status, k))"

definition generate_methodology_summary_with_assistants ::
  "openai \<Rightarrow> pystr \<Rightarrow> pystr \<Rightarrow> (pystr option \<times> call list) option" where
  "generate_methodology_summary_with_assistants api file_id pdf_name =
     (if \<not> assistants_create api then Some (None, [AssistantsCreate])
      else if \<not> threads_create api then Some (None, [AssistantsCreate, ThreadsCreate])
      else if \<not> messages_create api
        then Some (None, [AssistantsCreate, ThreadsCreate, MessagesCreate file_id])
      else
        (let started = [AssistantsCreate, ThreadsCreate, MessagesCreate file_id, RunsCreate]
         in case runs_create api of
              None \<Rightarrow> Some (None, started)
            | Some status0 \<Rightarrow>
                (case wait_for_completion (runs_retrieve api) 0 status0 of
                   None \<Rightarrow> None
                 | Some (None, k) \<Rightarrow> Some (None, started @ replicate k RunsRetrieve)
                 | Some (Some status, k) \<Rightarrow>
                     if status = py ''completed''
                     then (case messages_list api of
                             None \<Rightarrow> Some (None, started @ replicate k RunsRetrieve @ [MessagesList])
                           | Some response \<Rightarrow>
                               if write_assistants_summary api
                               then Some (Some response, started @ replicate k RunsRetrieve
                                      @ [MessagesList, WriteSummary (summary_filename pdf_name)])
                               else Some (None, started @ replicate k RunsRetrieve
                                      @ [MessagesList, WriteSummary (summary_filename pdf_name)]))
                     else Some (None, started @ replicate k RunsRetrieve))))"

definition generate_methodology_summary_with_chat ::
  "openai \<Rightarrow> pystr \<Rightarrow> pystr \<Rightarrow> pystr option \<times> call list" where
  "generate_methodology_summary_with_chat api file_id pdf_name =
     (case chat_completions_create api (chat_prompt file_id) of
        None \<Rightarrow> (None, [ChatCompletionsCreate system_content (chat_prompt file_id)])
      | Some summary \<Rightarrow>
          if write_chat_summary api
          then (Some summary, [ChatCompletionsCreate system_content (chat_prompt file_id),
                  WriteSummary (summary_filename pdf_name)])
          else (None, [ChatCompletionsCreate system_content (chat_prompt file_id),
                  WriteSummary (summary_filename pdf_name)]))"

text \<open>\<^verbatim>\<open>if not x\<close> on an optional string: \<^verbatim>\<open>None\<close> and the empty string are falsy.\<close>

definition falsy :: "pystr option \<Rightarrow> bool" where
  "falsy v = (v = None \<or> v = Some [])"

definition generate_methodology_summary ::
  "openai \<Rightarrow> pystr \<Rightarrow> (pystr option \<times> call list) option" where
  "generate_methodology_summary api pdf_name =
     (case upload_pdf_to_openai api pdf_name of
        (None, uploaded) \<Rightarrow> Some (None, uploaded)
      | (Some file_id, uploaded) \<Rightarrow>
          if file_id = [] then Some (None, uploaded)
          else (case generate_methodology_summary_with_assistants api file_id pdf_name of
                  None \<Rightarrow> None
                | Some (summary, analysed) \<Rightarrow>
                    if \<not> falsy summary then Some (summary, uploaded @ analysed)
                    else (case generate_methodology_summary_with_chat api file_id pdf_name of
                            (summary', completed) \<Rightarrow>
                              Some (summary', uploaded @ analysed @ completed))))"

subsection \<open>When the polling loop returns\<close>

text \<open>
  \<open>settles retrieve k status n final\<close>: starting with \<open>status\<close> and the poll number
  \<open>k\<close>, the next \<open>n\<close> polls succeed, the statuses before the last are pending and the
  last one is \<open>final\<close>, which is not pending. \<open>breaks\<close>: after \<open>n\<close> polls with
  pending statuses the next poll raises.
\<close>

fun settles :: "(nat \<Rightarrow> pystr option) \<Rightarrow> nat \<Rightarrow> pystr \<Rightarrow> nat \<Rightarrow> pystr \<Rightarrow> bool" where
  "settles retrieve k status 0 final = (\<not> pending status \<and> final = status)"
| "settles retrieve k status (Suc n) final =
     (pending status \<and>
      (case retrieve k of None \<Rightarrow> False | Some status' \<Rightarrow> settles retrieve (Suc k) status' n final))"

fun breaks :: "(nat \<Rightarrow> pystr option) \<Rightarrow> nat \<Rightarrow> pystr \<Rightarrow> nat \<Rightarrow> bool" where
  "breaks retrieve k status 0 = (pending status \<and> retrieve k = None)"
| "breaks retrieve k status (Suc n) =
     (pending status \<and>
      (case retrieve k of None \<Rightarrow> False | Some status' \<Rightarrow> breaks retrieve (Suc k) status' n))"

fun is_chat :: "call \<Rightarrow> bool" where
  "is_chat (ChatCompletionsCreate sys_text prompt) = True"
| "is_chat c = False"

subsection \<open>Failures of Strategy A and example capabilities\<close>

text \<open>
  The failures of Strategy A that the claim names: one of the calls that create the
  assistant, the thread, the message or the run raises; or a poll raises; or the run
  reaches a status that is not pending and not \<^verbatim>\<open>completed\<close>.
\<close>

definition strategy_a_fails :: "openai \<Rightarrow> pystr \<Rightarrow> nat \<Rightarrow> pystr \<Rightarrow> bool" where
  "strategy_a_fails api status0 n final =
     (\<not> assistants_create api \<or> \<not> threads_create api \<or> \<not> messages_create api
      \<or> runs_create api = None
      \<or> (runs_create api = Some status0
          \<and> (breaks (runs_retrieve api) 0 status0 n
              \<or> (settles (runs_retrieve api) 0 status0 n final \<and> final \<noteq> py ''completed''))))"

text \<open>
  A job that is queued, then in progress, then failed, with a working chat completion;
  the same capability with a failing upload; and with an upload that answers with an
  empty file id.
\<close>

definition failing_job :: openai where
  "failing_job =
     \<lparr>files_create = Some (py ''file-abc123''),
      assistants_create = True, threads_create = True, messages_create = True,
      runs_create = Some (py ''queued''),
      runs_retrieve = (\<lambda>k. if k = 0 then Some (py ''in_progress'') else Some (py ''failed'')),
      messages_list = None,
      write_assistants_summary = True,
      chat_completions_create = (\<lambda>prompt. Some (py ''SUMMARY'')),
      write_chat_summary = True\<rparr>"

definition failing_upload :: openai where
  "failing_upload = failing_job\<lparr>files_create := None\<rparr>"

definition empty_upload :: openai where
  "empty_upload = failing_job\<lparr>files_create := Some []\<rparr>"

section \<open>The batch\<close>










chapter \<open>Properties\<close>

section \<open>The sheet formatter: properties\<close>

subsection \<open>Facts about strip\<close>

lemma length_lstrip: "length (lstrip s) \<le> length s"
  by (simp add: lstrip_def length_dropWhile_le)

lemma length_rstrip: "length (rstrip s) \<le> length s"
  using length_dropWhile_le [of isspace "rev s"] by (simp add: rstrip_def)

lemma length_strip: "length (strip s) \<le> length s"
  using length_rstrip [of "lstrip s"] length_lstrip [of s] by (simp add: strip_def)

lemma lstrip_head: "lstrip s = d # r \<Longrightarrow> \<not> isspace d"
  using hd_dropWhile [of isspace s] by (auto simp: lstrip_def)

lemma lstrip_id: "s = [] \<or> \<not> isspace (hd s) \<Longrightarrow> lstrip s = s"
  by (cases s) (auto simp: lstrip_def)

lemma rstrip_append: "rstrip s @ rev (takeWhile isspace (rev s)) = s"
proof -
  have "rev (takeWhile isspace (rev s) @ dropWhile isspace (rev s)) = s"
    by simp
  then show ?thesis unfolding rstrip_def rev_append .
qed

lemma rstrip_last: "rstrip s \<noteq> [] \<Longrightarrow> \<not> isspace (last (rstrip s))"
  using hd_dropWhile [of isspace "rev s"] by (simp add: rstrip_def last_rev)

lemma rstrip_id: "s = [] \<or> \<not> isspace (last s) \<Longrightarrow> rstrip s = s"
proof (cases s rule: rev_cases)
  case Nil
  then show ?thesis by (simp add: rstrip_def)
next
  case (snoc xs x)
  assume "s = [] \<or> \<not> isspace (last s)"
  with snoc show ?thesis by (simp add: rstrip_def)
qed

lemma rstrip_hd: "rstrip s \<noteq> [] \<Longrightarrow> hd (rstrip s) = hd s"
  using rstrip_append [of s] by (metis hd_append2)

lemma strip_fixed: "(s = [] \<or> \<not> isspace (hd s)) \<Longrightarrow> (s = [] \<or> \<not> isspace (last s)) \<Longrightarrow> strip s = s"
  by (simp add: strip_def lstrip_id rstrip_id)

lemma strip_ends: "strip s = [] \<or> (\<not> isspace (hd (strip s)) \<and> \<not> isspace (last (strip s)))"
proof (cases "strip s = []")
  case True
  then show ?thesis by simp
next
  case False
  then have ne: "rstrip (lstrip s) \<noteq> []" by (simp add: strip_def)
  then have "lstrip s \<noteq> []" by (auto simp: rstrip_def)
  then obtain d r where dr: "lstrip s = d # r" by (cases "lstrip s") auto
  then have "\<not> isspace d" by (rule lstrip_head)
  moreover have "hd (rstrip (lstrip s)) = hd (lstrip s)" using ne by (rule rstrip_hd)
  ultimately have "\<not> isspace (hd (strip s))" using dr by (simp add: strip_def)
  moreover have "\<not> isspace (last (strip s))" using rstrip_last [OF ne] by (simp add: strip_def)
  ultimately show ?thesis by simp
qed

lemma strip_idem: "strip (strip s) = strip s"
  using strip_ends [of s] by (auto intro: strip_fixed)

subsection \<open>The length cap\<close>

lemma length_marker: "length truncation_marker = 35"
  by (simp add: truncation_marker_def py_def)

lemma length_cap_text: "length (cap_text t) \<le> 45000 + length truncation_marker"
  by (simp add: cap_text_def)

lemma length_format: "length (format_for_google_sheets inp) \<le> 45000 + length truncation_marker"
proof (cases inp)
  case None
  then show ?thesis by (simp add: format_for_google_sheets_def)
next
  case (Some t)
  have "length (strip (cap_text (normalise_text t))) \<le> length (cap_text (normalise_text t))"
    by (rule length_strip)
  also have "\<dots> \<le> 45000 + length truncation_marker" by (rule length_cap_text)
  finally show ?thesis using Some by (simp add: format_for_google_sheets_def)
qed

lemma strip_keeps_marker:
  assumes "m \<noteq> []" "\<not> isspace (hd m)" "\<not> isspace (last m)"
  shows "suffix m (strip (a @ m))"
proof -
  have dm: "dropWhile isspace m = m" using assms by (cases m) auto
  have "\<exists>b. lstrip (a @ m) = b @ m"
  proof (cases "\<forall>x\<in>set a. isspace x")
    case True
    then have "lstrip (a @ m) = [] @ m" by (simp add: lstrip_def dropWhile_append dm)
    then show ?thesis by blast
  next
    case False
    then have "lstrip (a @ m) = dropWhile isspace a @ m"
      by (auto simp: lstrip_def dropWhile_append)
    then show ?thesis by blast
  qed
  then obtain b where b: "lstrip (a @ m) = b @ m" by blast
  have "rstrip (b @ m) = b @ m" using assms by (intro rstrip_id) simp
  with b show ?thesis by (simp add: strip_def suffix_def)
qed

lemma marker_text_ends:
  "py ''[Summary truncated due to length]'' \<noteq> []"
  "\<not> isspace (hd (py ''[Summary truncated due to length]''))"
  "\<not> isspace (last (py ''[Summary truncated due to length]''))"
  by (simp_all add: py_def isspace_def)

lemma format_truncated_suffix:
  "suffix (py ''[Summary truncated due to length]'') (strip (a @ truncation_marker))"
proof -
  have "a @ truncation_marker = (a @ [10, 10]) @ py ''[Summary truncated due to length]''"
    by (simp add: truncation_marker_def)
  then show ?thesis
    using strip_keeps_marker [OF marker_text_ends, of "a @ [10, 10]"] by simp
qed

subsection \<open>Text that no substitution touches\<close>

lemma sub_blank_lines_replicate: "c \<noteq> 10 \<Longrightarrow> sub_blank_lines (replicate n c) = replicate n c"
  by (induction n) simp_all

lemma sub_spaces_replicate: "\<not> blank c \<Longrightarrow> sub_spaces (replicate n c) = replicate n c"
  by (induction n) simp_all

lemma sub_bullets_replicate:
  "\<not> isspace c \<Longrightarrow> c \<noteq> 45 \<Longrightarrow> sub_bullets b (replicate n c) = replicate n c"
  by (induction n arbitrary: b) (simp_all add: dash_next_def)

lemma normalise_text_replicate:
  "\<not> isspace c \<Longrightarrow> c \<noteq> 45 \<Longrightarrow> normalise_text (replicate n c) = replicate n c"
proof -
  assume c: "\<not> isspace c" "c \<noteq> 45"
  then have "c \<noteq> 10" "\<not> blank c" by (auto simp: isspace_def blank_def)
  with c show ?thesis
    by (simp add: normalise_text_def sub_blank_lines_replicate sub_spaces_replicate
        sub_bullets_replicate)
qed

text \<open>
  Claim C4. For every input (a string or a missing value) the formatter's output has at
  most 45000 characters plus the length of the truncation marker. A missing or empty
  input gives the empty string. When the text after the substitutions is longer than
  45000 characters the output is its first 45000 characters followed by the marker
  (stripped), and it ends with the marker's bracketed text; when it is not longer, no
  marker is appended: the output is the stripped text.
\<close>

theorem format_length_cap:
  "length (format_for_google_sheets inp) \<le> 45000 + length truncation_marker
   \<and> format_for_google_sheets None = []
   \<and> format_for_google_sheets (Some []) = []
   \<and> (t \<noteq> [] \<and> 45000 < length (normalise_text t) \<longrightarrow>
        format_for_google_sheets (Some t) = strip (take 45000 (normalise_text t) @ truncation_marker)
        \<and> suffix (py ''[Summary truncated due to length]'') (format_for_google_sheets (Some t)))
   \<and> (t \<noteq> [] \<and> length (normalise_text t) \<le> 45000 \<longrightarrow>
        format_for_google_sheets (Some t) = strip (normalise_text t))"
  using length_format [of inp] format_truncated_suffix [of "take 45000 (normalise_text t)"]
  by (simp add: format_for_google_sheets_def cap_text_def)

theorem format_length_cap_witness:
  "length (format_for_google_sheets (Some (replicate 45001 97))) \<le> 45000 + length truncation_marker
   \<and> replicate 45001 (97::nat) \<noteq> []
   \<and> 45000 < length (normalise_text (replicate 45001 97))
   \<and> format_for_google_sheets (Some (replicate 45001 97)) = replicate 45000 97 @ truncation_marker
   \<and> py ''- a'' \<noteq> []
   \<and> length (normalise_text (py ''- a'')) \<le> 45000
   \<and> format_for_google_sheets (Some (py ''- a'')) = [8226, 32, 97]"
proof -
  have n: "normalise_text (replicate 45001 97) = replicate 45001 97"
    by (rule normalise_text_replicate) (simp_all add: isspace_def)
  have ne: "replicate 45001 (97::nat) \<noteq> []" by simp
  have s: "strip (replicate 45000 97 @ truncation_marker) = replicate 45000 97 @ truncation_marker"
    by (rule strip_fixed) (simp_all add: truncation_marker_def py_def isspace_def hd_append)
  have m: "normalise_text (py ''- a'') = [8226, 32, 97]"
    by (simp add: normalise_text_def py_def dash_next_def after_dash_def ends_line_def isspace_def blank_def)
  have st: "strip [8226, 32, 97] = [8226, 32, 97]"
    by (simp add: strip_def lstrip_def rstrip_def isspace_def)
  have p: "py ''- a'' \<noteq> []" by (simp add: py_def)
  show ?thesis
    using format_length_cap [of "Some (replicate 45001 97)" "replicate 45001 97"]
      format_length_cap [of "Some (replicate 45001 97)" "py ''- a''"]
    by (simp add: n s m st p)
qed

subsection \<open>Normal forms of the three substitutions\<close>

lemma isspace_simps [simp]:
  "isspace 10" "isspace 32" "isspace 9" "\<not> isspace 45" "\<not> isspace 8226"
  by (simp_all add: isspace_def)

lemma blank_isspace: "blank c \<Longrightarrow> isspace c"
  by (auto simp: blank_def)

lemma after_blank_None: "(after_blank s = None) = (\<not> has_newline s)"
  by (induction s) (auto split: option.splits)

lemma after_blank_rest: "after_blank s = Some r \<Longrightarrow> \<not> has_newline r"
proof (induction s arbitrary: r)
  case Nil
  then show ?case by simp
next
  case (Cons c s)
  show ?case
  proof (cases "after_blank s")
    case None
    with Cons.prems have "r = s" by (auto split: if_splits)
    with None show ?thesis by (simp add: after_blank_None)
  next
    case (Some r')
    with Cons.prems have "r = r'" by (auto split: if_splits)
    with Some Cons.IH show ?thesis by simp
  qed
qed

lemma after_blank_suffix: "after_blank s = Some r \<Longrightarrow> suffix r s"
proof (induction s arbitrary: r)
  case Nil
  then show ?case by simp
next
  case (Cons c s)
  then show ?case
    by (cases "after_blank s") (auto split: if_splits intro: suffix_ConsI)
qed

lemma has_newline_sub_blank: "has_newline (sub_blank_lines s) \<Longrightarrow> has_newline s"
  by (induction s rule: sub_blank_lines.induct) (auto split: option.splits if_splits)

lemma no_blank_lines_sub: "no_blank_lines (sub_blank_lines s)"
proof (induction s rule: sub_blank_lines.induct)
  case 1
  show ?case by simp
next
  case (2 c s)
  show ?case
  proof (cases "c = 10")
    case False
    with 2 show ?thesis by simp
  next
    case True
    show ?thesis
    proof (cases "after_blank s")
      case None
      then have "\<not> has_newline (sub_blank_lines s)"
        using has_newline_sub_blank [of s] by (auto simp: after_blank_None)
      with None True 2 show ?thesis by simp
    next
      case (Some r)
      then have "\<not> has_newline (sub_blank_lines r)"
        using has_newline_sub_blank [of r] after_blank_rest [of s r] by auto
      with Some True 2 show ?thesis by simp
    qed
  qed
qed

lemma sub_blank_fixed: "no_blank_lines s \<Longrightarrow> sub_blank_lines s = s"
  by (induction s) (auto simp: after_blank_None [symmetric])

lemma no_blank_lines_suffix: "suffix r s \<Longrightarrow> no_blank_lines s \<Longrightarrow> no_blank_lines r"
proof (induction s)
  case Nil
  then show ?case by simp
next
  case (Cons c s)
  then show ?case by (auto simp: suffix_Cons)
qed

lemma has_newline_append: "has_newline s \<Longrightarrow> has_newline (s @ w)"
  by (induction s) auto

lemma no_blank_lines_prefix: "no_blank_lines (s @ w) \<Longrightarrow> no_blank_lines s"
  by (induction s) (auto dest: has_newline_append)

subsection \<open>Runs of blanks\<close>

lemma dropWhile_blank_id: "s = [] \<or> \<not> blank (hd s) \<Longrightarrow> dropWhile blank s = s"
  by (cases s) auto

lemma hd_sub_spaces: "s = [] \<or> \<not> blank (hd s) \<Longrightarrow> sub_spaces s = [] \<or> \<not> blank (hd (sub_spaces s))"
  by (cases s) auto

lemma dropWhile_hd: "dropWhile P s = [] \<or> \<not> P (hd (dropWhile P s))"
  using hd_dropWhile [of P s] by blast

lemma single_spaced_sub: "single_spaced (sub_spaces s)"
proof (induction s rule: sub_spaces.induct)
  case 1
  show ?case by simp
next
  case (2 c s)
  show ?case
  proof (cases "blank c")
    case True
    have "sub_spaces (dropWhile blank s) = [] \<or> \<not> blank (hd (sub_spaces (dropWhile blank s)))"
      by (rule hd_sub_spaces) (rule dropWhile_hd)
    with True 2 show ?thesis by simp
  next
    case False
    then have "c \<noteq> 9" "c \<noteq> 32" by (auto simp: blank_def)
    with False 2 show ?thesis by simp
  qed
qed

lemma sub_spaces_fixed: "single_spaced s \<Longrightarrow> sub_spaces s = s"
proof (induction s)
  case Nil
  show ?case by simp
next
  case (Cons c s)
  then have IH: "sub_spaces s = s" by simp
  show ?case
  proof (cases "blank c")
    case True
    with Cons.prems have "c = 32" "s = [] \<or> \<not> blank (hd s)" by (auto simp: blank_def)
    with True IH show ?thesis by (simp add: dropWhile_blank_id)
  next
    case False
    with IH show ?thesis by simp
  qed
qed

lemma single_spaced_suffix: "suffix r s \<Longrightarrow> single_spaced s \<Longrightarrow> single_spaced r"
  by (induction s) (auto simp: suffix_Cons)

lemma single_spaced_prefix: "single_spaced (s @ w) \<Longrightarrow> single_spaced s"
proof (induction s)
  case Nil
  show ?case by simp
next
  case (Cons c s)
  then show ?case by (cases s) auto
qed

subsection \<open>Bullet markers\<close>

lemma dash_next_Cons: "dash_next (c # s) = (if isspace c then dash_next s else c = 45)"
  by (simp add: dash_next_def)

lemma dash_next_Nil [simp]: "\<not> dash_next []"
  by (simp add: dash_next_def)

lemma dash_next_sub_bullets: "dash_next (sub_bullets b s) \<Longrightarrow> dash_next s"
proof (induction b s rule: sub_bullets.induct)
  case (1 bol)
  then show ?case by simp
next
  case (2 bol c s)
  show ?case
  proof (cases "bol \<and> dash_next (c # s)")
    case True
    then show ?thesis by simp
  next
    case False
    with "2.prems" have d: "dash_next (c # sub_bullets (c = 10) s)" by simp
    show ?thesis
    proof (cases "isspace c")
      case True
      with d have "dash_next (sub_bullets (c = 10) s)" by (simp add: dash_next_Cons)
      with False "2.IH"(2) have "dash_next s" by blast
      with True show ?thesis by (simp add: dash_next_Cons)
    next
      case False
      with d show ?thesis by (simp add: dash_next_Cons)
    qed
  qed
qed

lemma no_bullets_sub: "(b' \<longrightarrow> b) \<Longrightarrow> no_bullets b' (sub_bullets b s)"
proof (induction b s arbitrary: b' rule: sub_bullets.induct)
  case (1 bol)
  show ?case by simp
next
  case (2 bol c s)
  show ?case
  proof (cases "bol \<and> dash_next (c # s)")
    case True
    have "no_bullets False (sub_bullets (ends_line (takeWhile isspace (after_dash (c # s))))
            (dropWhile isspace (after_dash (c # s))))"
      using True by (intro "2.IH"(1)) simp_all
    with True show ?thesis by (simp add: dash_next_Cons)
  next
    case False
    have IH: "no_bullets (c = 10) (sub_bullets (c = 10) s)"
      using False by (intro "2.IH"(2)) simp_all
    have "\<not> (b' \<and> dash_next (c # sub_bullets (c = 10) s))"
    proof
      assume a: "b' \<and> dash_next (c # sub_bullets (c = 10) s)"
      with "2.prems" have bol by simp
      with False have nd: "\<not> dash_next (c # s)" by simp
      show False
      proof (cases "isspace c")
        case True
        with a have "dash_next (sub_bullets (c = 10) s)" by (simp add: dash_next_Cons)
        then have "dash_next s" by (rule dash_next_sub_bullets)
        with True nd show False by (simp add: dash_next_Cons)
      next
        case False
        with a nd show False by (simp add: dash_next_Cons)
      qed
    qed
    moreover from False have "sub_bullets bol (c # s) = c # sub_bullets (c = 10) s" by auto
    ultimately show ?thesis using IH by (simp del: sub_bullets.simps)
  qed
qed

lemma sub_bullets_fixed: "no_bullets b s \<Longrightarrow> sub_bullets b s = s"
  by (induction s arbitrary: b) auto

subsection \<open>Later substitutions keep the earlier normal forms\<close>

lemma has_newline_dropWhile_blank: "has_newline (dropWhile blank s) = has_newline s"
  by (induction s) (auto simp: blank_def)

lemma has_newline_sub_spaces: "has_newline (sub_spaces s) = has_newline s"
proof (induction s rule: sub_spaces.induct)
  case 1
  show ?case by simp
next
  case (2 c s)
  show ?case
  proof (cases "blank c")
    case True
    then have "c \<noteq> 10" "isspace c" by (auto simp: blank_def)
    with True 2 show ?thesis by (simp add: has_newline_dropWhile_blank)
  next
    case False
    with 2 show ?thesis by simp
  qed
qed

lemma no_blank_lines_sub_spaces: "no_blank_lines s \<Longrightarrow> no_blank_lines (sub_spaces s)"
proof (induction s rule: sub_spaces.induct)
  case 1
  show ?case by simp
next
  case (2 c s)
  show ?case
  proof (cases "blank c")
    case True
    from "2.prems" have "no_blank_lines s" by simp
    then have "no_blank_lines (dropWhile blank s)"
      by (rule no_blank_lines_suffix [rotated]) (rule suffix_dropWhile)
    with True 2 show ?thesis by simp
  next
    case False
    with 2 show ?thesis by (simp add: has_newline_sub_spaces)
  qed
qed

lemma has_newline_sub_bullets: "has_newline (sub_bullets b s) \<Longrightarrow> has_newline s"
proof (induction b s rule: sub_bullets.induct)
  case (1 bol)
  then show ?case by simp
next
  case (2 bol c s)
  show ?case
  proof (cases "bol \<and> dash_next (c # s)")
    case True
    with "2.prems" show ?thesis by simp
  next
    case False
    then have eq: "sub_bullets bol (c # s) = c # sub_bullets (c = 10) s" by auto
    with "2.prems" "2.IH"(2) False show ?thesis by (auto simp del: sub_bullets.simps)
  qed
qed

lemma suffix_after_dash: "suffix (dropWhile isspace (after_dash s)) s"
proof -
  have "suffix (dropWhile isspace (after_dash s)) (after_dash s)" by (rule suffix_dropWhile)
  moreover have "suffix (after_dash s) (dropWhile isspace s)"
    unfolding after_dash_def by (rule suffix_tl)
  moreover have "suffix (dropWhile isspace s) s" by (rule suffix_dropWhile)
  ultimately show ?thesis by (meson suffix_order.trans)
qed

lemma no_blank_lines_sub_bullets: "no_blank_lines s \<Longrightarrow> no_blank_lines (sub_bullets b s)"
proof (induction b s rule: sub_bullets.induct)
  case (1 bol)
  show ?case by simp
next
  case (2 bol c s)
  show ?case
  proof (cases "bol \<and> dash_next (c # s)")
    case True
    have "no_blank_lines (dropWhile isspace (after_dash (c # s)))"
      using suffix_after_dash "2.prems" by (rule no_blank_lines_suffix)
    with True "2.IH"(1) show ?thesis by simp
  next
    case False
    then have eq: "sub_bullets bol (c # s) = c # sub_bullets (c = 10) s" by auto
    from "2.prems" False "2.IH"(2) have "no_blank_lines (sub_bullets (c = 10) s)" by simp
    moreover from "2.prems" have "c = 10 \<longrightarrow> \<not> has_newline (sub_bullets (c = 10) s)"
      using has_newline_sub_bullets [of "c = 10" s] by auto
    ultimately show ?thesis by (simp add: eq del: sub_bullets.simps)
  qed
qed

lemma hd_sub_bullets:
  "s = [] \<or> \<not> isspace (hd s) \<Longrightarrow> sub_bullets b s = [] \<or> \<not> blank (hd (sub_bullets b s))"
  by (cases s) (auto simp: blank_def dest: blank_isspace)

lemma hd_sub_bullets_plain:
  "s = [] \<or> \<not> blank (hd s) \<Longrightarrow> sub_bullets False s = [] \<or> \<not> blank (hd (sub_bullets False s))"
  by (cases s) auto

lemma single_spaced_sub_bullets: "single_spaced s \<Longrightarrow> single_spaced (sub_bullets b s)"
proof (induction b s rule: sub_bullets.induct)
  case (1 bol)
  show ?case by simp
next
  case (2 bol c s)
  show ?case
  proof (cases "bol \<and> dash_next (c # s)")
    case True
    let ?r = "dropWhile isspace (after_dash (c # s))"
    let ?f = "ends_line (takeWhile isspace (after_dash (c # s)))"
    have "single_spaced ?r"
      using suffix_after_dash "2.prems" by (rule single_spaced_suffix)
    with True "2.IH"(1) have "single_spaced (sub_bullets ?f ?r)" by simp
    moreover have "sub_bullets ?f ?r = [] \<or> \<not> blank (hd (sub_bullets ?f ?r))"
      by (rule hd_sub_bullets) (rule dropWhile_hd)
    ultimately show ?thesis using True by simp
  next
    case False
    then have eq: "sub_bullets bol (c # s) = c # sub_bullets (c = 10) s" by auto
    from "2.prems" False "2.IH"(2) have t: "single_spaced (sub_bullets (c = 10) s)" by simp
    have "c = 32 \<longrightarrow> sub_bullets (c = 10) s = [] \<or> \<not> blank (hd (sub_bullets (c = 10) s))"
    proof
      assume c: "c = 32"
      with "2.prems" have "s = [] \<or> \<not> blank (hd s)" by simp
      then have "sub_bullets False s = [] \<or> \<not> blank (hd (sub_bullets False s))"
        by (rule hd_sub_bullets_plain)
      with c show "sub_bullets (c = 10) s = [] \<or> \<not> blank (hd (sub_bullets (c = 10) s))" by simp
    qed
    with t "2.prems" show ?thesis by (simp add: eq del: sub_bullets.simps)
  qed
qed

subsection \<open>strip keeps the normal forms\<close>

lemma suffix_lstrip: "suffix (lstrip s) s"
  by (simp add: lstrip_def suffix_dropWhile)

lemma no_blank_lines_strip: "no_blank_lines s \<Longrightarrow> no_blank_lines (strip s)"
proof -
  assume "no_blank_lines s"
  with suffix_lstrip have "no_blank_lines (lstrip s)" by (rule no_blank_lines_suffix)
  then have "no_blank_lines (rstrip (lstrip s) @ rev (takeWhile isspace (rev (lstrip s))))"
    by (simp only: rstrip_append)
  then show ?thesis unfolding strip_def by (rule no_blank_lines_prefix)
qed

lemma single_spaced_strip: "single_spaced s \<Longrightarrow> single_spaced (strip s)"
proof -
  assume "single_spaced s"
  with suffix_lstrip have "single_spaced (lstrip s)" by (rule single_spaced_suffix)
  then have "single_spaced (rstrip (lstrip s) @ rev (takeWhile isspace (rev (lstrip s))))"
    by (simp only: rstrip_append)
  then show ?thesis unfolding strip_def by (rule single_spaced_prefix)
qed

lemma dash_next_append: "dash_next s \<Longrightarrow> dash_next (s @ w)"
  by (induction s) (auto simp: dash_next_Cons split: if_splits)

lemma no_bullets_prefix: "no_bullets b (s @ w) \<Longrightarrow> no_bullets b s"
proof (induction s arbitrary: b)
  case Nil
  show ?case by simp
next
  case (Cons c s)
  from Cons.prems have "no_bullets (c = 10) (s @ w)" by simp
  then have "no_bullets (c = 10) s" by (rule Cons.IH)
  moreover from Cons.prems have "\<not> (b \<and> dash_next (c # s))"
    using dash_next_append [of "c # s" w] by auto
  ultimately show ?case by simp
qed

lemma no_bullets_lstrip:
  "\<not> dash_next s \<Longrightarrow> no_bullets b s \<Longrightarrow> no_bullets True (dropWhile isspace s)"
proof (induction s arbitrary: b)
  case Nil
  show ?case by simp
next
  case (Cons c s)
  show ?case
  proof (cases "isspace c")
    case True
    with Cons.prems have "\<not> dash_next s" "no_bullets (c = 10) s" by (simp_all add: dash_next_Cons)
    then have "no_bullets True (dropWhile isspace s)" by (rule Cons.IH)
    with True show ?thesis by simp
  next
    case False
    with Cons.prems show ?thesis by simp
  qed
qed

lemma no_bullets_strip: "no_bullets True s \<Longrightarrow> no_bullets True (strip s)"
proof -
  assume a: "no_bullets True s"
  then have "\<not> dash_next s" by (cases s) simp_all
  then have "no_bullets True (lstrip s)" using a unfolding lstrip_def by (rule no_bullets_lstrip)
  then have "no_bullets True (rstrip (lstrip s) @ rev (takeWhile isspace (rev (lstrip s))))"
    by (simp only: rstrip_append)
  then show ?thesis unfolding strip_def by (rule no_bullets_prefix)
qed

subsection \<open>Idempotence below the cap\<close>

lemma normalise_text_normal:
  "no_blank_lines (normalise_text x)" "single_spaced (normalise_text x)"
  "no_bullets True (normalise_text x)"
  unfolding normalise_text_def
  by (simp_all add: no_blank_lines_sub_bullets no_blank_lines_sub_spaces no_blank_lines_sub
      single_spaced_sub_bullets single_spaced_sub no_bullets_sub)

lemma normalise_text_fixed:
  "no_blank_lines y \<Longrightarrow> single_spaced y \<Longrightarrow> no_bullets True y \<Longrightarrow> normalise_text y = y"
  by (simp add: normalise_text_def sub_blank_fixed sub_spaces_fixed sub_bullets_fixed)

lemma normalise_text_strip: "normalise_text (strip (normalise_text x)) = strip (normalise_text x)"
  by (intro normalise_text_fixed no_blank_lines_strip single_spaced_strip no_bullets_strip
      normalise_text_normal)

subsection \<open>A long text\<close>

lemma sub_blank_lines_plain_prefix:
  "c \<noteq> 10 \<Longrightarrow> sub_blank_lines (replicate n c @ t) = replicate n c @ sub_blank_lines t"
  by (induction n) simp_all

lemma sub_spaces_plain_prefix:
  "\<not> blank c \<Longrightarrow> sub_spaces (replicate n c @ t) = replicate n c @ sub_spaces t"
  by (induction n) simp_all

lemma sub_bullets_plain_prefix:
  "\<not> isspace c \<Longrightarrow> c \<noteq> 45 \<Longrightarrow> c \<noteq> 10 \<Longrightarrow>
   sub_bullets b (replicate (Suc n) c @ t) = replicate (Suc n) c @ sub_bullets False t"
  by (induction n arbitrary: b) (simp_all add: dash_next_Cons)

lemma normalise_text_plain_prefix:
  assumes "\<not> isspace c" "c \<noteq> 45"
  shows "normalise_text (replicate (Suc n) c @ t)
         = replicate (Suc n) c @ sub_bullets False (sub_spaces (sub_blank_lines t))"
proof -
  from assms have c: "c \<noteq> 10" "\<not> blank c" by (auto simp: isspace_def blank_def)
  show ?thesis
    unfolding normalise_text_def
    by (simp only: sub_blank_lines_plain_prefix [OF c(1)] sub_spaces_plain_prefix [OF c(2)]
        sub_bullets_plain_prefix [OF assms c(1)])
qed

lemma a_plain: "\<not> isspace 97" "(97::nat) \<noteq> 45"
  by (simp_all add: isspace_def)

lemma dash_next_replicate: "\<not> isspace c \<Longrightarrow> c \<noteq> 45 \<Longrightarrow> \<not> dash_next (replicate n c)"
  by (cases n) (simp_all add: dash_next_Cons)

lemma dropWhile_blank_replicate: "\<not> blank c \<Longrightarrow> dropWhile blank (replicate n c) = replicate n c"
  by (cases n) simp_all

lemma normalise_text_space_plain: "normalise_text (32 # replicate n 97) = 32 # replicate n 97"
proof -
  have b: "\<not> blank 97" "blank 32" by (simp_all add: blank_def)
  have 1: "sub_blank_lines (32 # replicate n 97) = 32 # replicate n 97"
    by (simp add: sub_blank_lines_replicate)
  have 2: "sub_spaces (32 # replicate n 97) = 32 # replicate n 97"
    by (simp add: b dropWhile_blank_replicate sub_spaces_replicate)
  have 3: "sub_bullets True (32 # replicate n 97) = 32 # replicate n 97"
    using dash_next_replicate [OF a_plain, of n]
    by (simp add: dash_next_Cons sub_bullets_replicate [OF a_plain])
  show ?thesis by (simp only: normalise_text_def 1 2 3)
qed

lemma format_long_first:
  "format_for_google_sheets (Some (32 # replicate 45000 97)) = replicate 44999 97 @ truncation_marker"
proof -
  have n: "normalise_text (32 # replicate 45000 97) = 32 # replicate 45000 97"
    by (rule normalise_text_space_plain)
  have t: "take 45000 (32 # replicate 45000 (97::nat)) = 32 # replicate 44999 97"
    by (simp add: take_Cons')
  have s: "strip (32 # replicate 44999 97 @ truncation_marker) = replicate 44999 97 @ truncation_marker"
  proof -
    have "lstrip (32 # replicate 44999 97 @ truncation_marker) = replicate 44999 97 @ truncation_marker"
      by (simp add: lstrip_def dropWhile_append isspace_def)
    moreover have "rstrip (replicate 44999 97 @ truncation_marker) = replicate 44999 97 @ truncation_marker"
      by (rule rstrip_id) (simp add: truncation_marker_def py_def isspace_def)
    ultimately show ?thesis by (simp add: strip_def)
  qed
  show ?thesis
    by (simp add: format_for_google_sheets_def n cap_text_def t s)
qed

lemma format_long_second:
  "format_for_google_sheets (Some (replicate 44999 97 @ truncation_marker))
   = replicate 44999 97 @ 10 # truncation_marker"
proof -
  have r: "replicate 44999 (97::nat) = replicate (Suc 44998) 97" by simp
  have m: "sub_bullets False (sub_spaces (sub_blank_lines truncation_marker)) = tl truncation_marker"
    by (simp add: truncation_marker_def py_def isspace_def blank_def dash_next_def)
  have n: "normalise_text (replicate 44999 97 @ truncation_marker)
           = replicate 44999 97 @ tl truncation_marker"
    unfolding r by (simp only: normalise_text_plain_prefix [OF a_plain] m)
  have l: "length (tl truncation_marker) = 34" by (simp add: truncation_marker_def py_def)
  have t: "take 45000 (replicate 44999 97 @ tl truncation_marker) = replicate 44999 97 @ [10]"
    by (simp add: truncation_marker_def)
  have s: "strip (replicate 44999 97 @ 10 # truncation_marker) = replicate 44999 97 @ 10 # truncation_marker"
    by (rule strip_fixed) (simp_all add: truncation_marker_def py_def isspace_def hd_append)
  have ne: "replicate 44999 (97::nat) @ truncation_marker \<noteq> []" by (simp add: truncation_marker_def)
  have g: "45000 < length (replicate 44999 (97::nat) @ tl truncation_marker)"
    using l by simp
  have tr: "cap_text (normalise_text (replicate 44999 97 @ truncation_marker))
            = replicate 44999 97 @ 10 # truncation_marker"
    unfolding cap_text_def n using g by (simp only: if_True t) simp
  show ?thesis
    unfolding format_for_google_sheets_def using ne by (simp only: option.case if_False tr s)
qed

text \<open>
  Claim C3, as stated: formatting twice gives the same text as formatting once, for every
  input. It fails on a text of a space and 45000 letters: the first pass truncates, the
  strip drops the leading space, and the second pass collapses the two line feeds of the
  marker, truncates again at another place and appends a second marker.
\<close>

theorem format_not_idempotent:
  "format_for_google_sheets (Some (format_for_google_sheets (Some (32 # replicate 45000 97))))
   \<noteq> format_for_google_sheets (Some (32 # replicate 45000 97))"
  by (simp add: format_long_first format_long_second)

text \<open>
  Claim C3, amended: for every input whose text after the three substitutions has at
  most 45000 characters (no truncation takes place), formatting the formatter's output
  again gives that output.
\<close>

theorem format_idempotent_below_cap:
  "length (normalise_text x) \<le> 45000 \<Longrightarrow>
   format_for_google_sheets (Some (format_for_google_sheets (Some x))) = format_for_google_sheets (Some x)"
proof -
  assume le: "length (normalise_text x) \<le> 45000"
  have "length (strip (normalise_text x)) \<le> length (normalise_text x)" by (rule length_strip)
  with le have "length (strip (normalise_text x)) \<le> 45000" by simp
  with le show ?thesis
    by (simp add: format_for_google_sheets_def cap_text_def normalise_text_strip strip_idem)
qed

theorem format_idempotent_below_cap_witness:
  "length (normalise_text (py ''  -  a    b'')) \<le> 45000
   \<and> format_for_google_sheets (Some (py ''  -  a    b'')) = 8226 # py '' a b''
   \<and> format_for_google_sheets (Some (format_for_google_sheets (Some (py ''  -  a    b''))))
       = format_for_google_sheets (Some (py ''  -  a    b''))"
proof -
  have n: "normalise_text (py ''  -  a    b'') = 8226 # py '' a b''"
    by (simp add: normalise_text_def py_def dash_next_def after_dash_def ends_line_def
        isspace_def blank_def)
  have s: "strip (8226 # py '' a b'') = 8226 # py '' a b''"
    by (simp add: strip_def lstrip_def rstrip_def isspace_def py_def)
  have f: "format_for_google_sheets (Some (py ''  -  a    b'')) = 8226 # py '' a b''"
    by (simp add: format_for_google_sheets_def cap_text_def n s) (simp add: py_def)
  have l: "length (normalise_text (py ''  -  a    b'')) \<le> 45000"
    unfolding n by (simp add: py_def)
  show ?thesis
    using format_idempotent_below_cap [OF l] l f by simp
qed

section \<open>The link classifier: properties\<close>

subsection \<open>The keyword patterns\<close>

lemma contains_trans: "contains a b \<Longrightarrow> contains b c \<Longrightarrow> contains a c"
  unfolding contains_def by (rule sublist_order.order.trans)

lemma pdf_in_pattern:
  "contains (py ''pdf'') (py ''/pdf/'')" "contains (py ''pdf'') (py ''format=pdf'')"
  "contains (py ''pdf'') (py ''type=pdf'')" "contains (py ''pdf'') (py ''filetype=pdf'')"
  "contains (py ''pdf'') (py ''download=pdf'')" "contains (py ''pdf'') (py ''.pdf'')"
  by (simp_all add: contains_def py_def sublist_code)

lemma patterns_subsumed:
  "list_ex (\<lambda>pattern. contains pattern s) pdf_patterns = contains (py ''pdf'') s"
  unfolding pdf_patterns_def using pdf_in_pattern by (auto intro: contains_trans)

lemma endswith_pdf_contains: "endswith s (py ''.pdf'') \<Longrightarrow> contains (py ''pdf'') s"
proof -
  assume "endswith s (py ''.pdf'')"
  then have "contains (py ''.pdf'') s" by (simp add: endswith_def contains_def)
  with pdf_in_pattern(6) show ?thesis by (rule contains_trans)
qed

lemma contains_lower: "sublist p u \<Longrightarrow> contains a (lower p) \<Longrightarrow> contains a (lower u)"
  unfolding contains_def lower_def
  by (meson map_mono_sublist sublist_order.order.trans)

subsection \<open>The path is a part of the URL\<close>

lemma split_scheme_suffix: "split_scheme url = (sch, r) \<Longrightarrow> suffix r url"
  by (auto simp: split_scheme_def Let_def suffix_drop split: if_splits)

lemma splitnetloc_suffix: "splitnetloc url = (n, r) \<Longrightarrow> suffix r url"
proof -
  assume "splitnetloc url = (n, r)"
  then have "r = dropWhile (\<lambda>c. \<not> netloc_delim c) (drop 2 url)" by (simp add: splitnetloc_def)
  moreover have "suffix (dropWhile (\<lambda>c. \<not> netloc_delim c) (drop 2 url)) (drop 2 url)"
    by (rule suffix_dropWhile)
  moreover have "suffix (drop 2 url) url" by (rule suffix_drop)
  ultimately show ?thesis by (meson suffix_order.trans)
qed

lemma cut_prefix: "prefix (takeWhile P (takeWhile Q s)) s"
  by (meson prefix_order.trans takeWhile_is_prefix)

lemma splitparams_prefix: "prefix (splitparams p) p"
proof (cases "47 \<in> set p")
  case True
  have "rev (dropWhile (\<lambda>c. c \<noteq> 47) (rev p)) @ rev (takeWhile (\<lambda>c. c \<noteq> 47) (rev p)) = p"
    by (metis rev_append rev_rev_ident takeWhile_dropWhile_id)
  then have "prefix (rev (dropWhile (\<lambda>c. c \<noteq> 47) (rev p))
      @ takeWhile (\<lambda>c. c \<noteq> 59) (rev (takeWhile (\<lambda>c. c \<noteq> 47) (rev p)))) p"
    by (metis same_prefix_prefix takeWhile_is_prefix)
  with True show ?thesis by (simp add: splitparams_def)
next
  case False
  then show ?thesis by (simp add: splitparams_def takeWhile_is_prefix)
qed

lemma urlsplit_path_sublist:
  assumes "urlsplit_path ok u = Inr (sch, p)" "\<forall>c\<in>set u. \<not> unsafe_url_char c"
  shows "sublist p u"
proof -
  let ?u1 = "filter (\<lambda>c. \<not> unsafe_url_char c) (dropWhile c0_control_or_space u)"
  have "\<forall>c\<in>set (dropWhile c0_control_or_space u). \<not> unsafe_url_char c"
    using assms(2) set_dropWhileD by fastforce
  then have u1: "?u1 = dropWhile c0_control_or_space u" by simp
  then have s1: "sublist ?u1 u" by simp
  obtain sch' u2 where sp: "split_scheme ?u1 = (sch', u2)" by (cases "split_scheme ?u1")
  then have s2: "sublist u2 ?u1" using split_scheme_suffix by blast
  obtain n u3 where sn: "splitnetloc u2 = (n, u3)" by (cases "splitnetloc u2")
  then have s3: "sublist u3 u2" using splitnetloc_suffix by blast
  have "p = takeWhile (\<lambda>c. c \<noteq> 63) (takeWhile (\<lambda>c. c \<noteq> 35) u3)
        \<or> p = takeWhile (\<lambda>c. c \<noteq> 63) (takeWhile (\<lambda>c. c \<noteq> 35) u2)"
    using assms(1) sp sn by (auto simp: urlsplit_path_def Let_def split: if_splits)
  then have "sublist p u3 \<or> sublist p u2"
    using cut_prefix prefix_imp_sublist by metis
  with s3 have "sublist p u2" by (meson sublist_order.order.trans)
  with s2 s1 show ?thesis by (meson sublist_order.order.trans)
qed

lemma urlparse_path_sublist:
  assumes "urlparse_path ok u = Inr p" "\<forall>c\<in>set u. \<not> unsafe_url_char c"
  shows "sublist p u"
proof -
  from assms(1) obtain sch q where q: "urlsplit_path ok u = Inr (sch, q)"
    and p: "p = splitparams q \<or> p = q"
    by (auto simp: urlparse_path_def split: sum.splits if_splits)
  from q assms(2) have "sublist q u" by (rule urlsplit_path_sublist)
  moreover from p have "sublist p q" using splitparams_prefix [of q] by auto
  ultimately show ?thesis by (meson sublist_order.order.trans)
qed

subsection \<open>Classification\<close>

lemma is_pdf_url_str:
  "u \<noteq> [] \<Longrightarrow> urlparse_path ok u = Inr p \<Longrightarrow>
   is_pdf_url ok (PyStr u) = Inr (endswith (lower p) (py ''.pdf'') \<or> contains (py ''pdf'') (lower u))"
  by (simp add: is_pdf_url_def patterns_subsumed)

lemma is_pdf_url_raises:
  "u \<noteq> [] \<Longrightarrow> urlparse_path ok u = Inl e \<Longrightarrow> is_pdf_url ok (PyStr u) = Inl e"
  by (simp add: is_pdf_url_def)

lemma is_pdf_url_falsy:
  "is_pdf_url ok PyNone = Inr False" "is_pdf_url ok (PyStr []) = Inr False"
  "is_pdf_url ok (PyInt n) = Inr False" "is_pdf_url ok (PyObj (Inr b)) = Inr False"
  "is_pdf_url ok (PyObj (Inl e)) = Inl e"
  by (simp_all add: is_pdf_url_def)

lemma urlparse_path_error: "urlparse_path ok u = Inl e \<Longrightarrow> e = ValueError"
  by (auto simp: urlparse_path_def urlsplit_path_def Let_def
      split: sum.splits prod.splits if_splits)

lemma is_pdf_url_str_error: "is_pdf_url ok (PyStr u) = Inl e \<Longrightarrow> e = ValueError"
  by (auto simp: is_pdf_url_def dest: urlparse_path_error split: sum.splits if_splits)

text \<open>
  Where the classifier returns, it follows its algorithm: false on \<^verbatim>\<open>None\<close>, on the empty
  string, on an integer and on every other value whose truth test returns; on a
  non-empty string whose URL parsing succeeds with path \<open>p\<close>, true when the lower-cased
  path ends in \<^verbatim>\<open>.pdf\<close> or the lower-cased URL contains one of the six keyword patterns,
  and false when neither holds. It raises when the truth test of its argument raises
  and when \<^verbatim>\<open>urlparse\<close> raises.
\<close>

lemma classifier_algorithm:
  "is_pdf_url ok PyNone = Inr False \<and> is_pdf_url ok (PyStr []) = Inr False
   \<and> is_pdf_url ok (PyInt n) = Inr False \<and> is_pdf_url ok (PyObj (Inr b)) = Inr False
   \<and> is_pdf_url ok (PyObj (Inl e')) = Inl e'
   \<and> (u \<noteq> [] \<and> urlparse_path ok u = Inr p \<and>
        (endswith (lower p) (py ''.pdf'') \<or> list_ex (\<lambda>k. contains k (lower u)) pdf_patterns)
        \<longrightarrow> is_pdf_url ok (PyStr u) = Inr True)
   \<and> (u \<noteq> [] \<and> urlparse_path ok u = Inr p \<and>
        \<not> endswith (lower p) (py ''.pdf'') \<and> \<not> list_ex (\<lambda>k. contains k (lower u)) pdf_patterns
        \<longrightarrow> is_pdf_url ok (PyStr u) = Inr False)
   \<and> (u \<noteq> [] \<and> urlparse_path ok u = Inl e \<longrightarrow> is_pdf_url ok (PyStr u) = Inl e)"
  by (simp add: is_pdf_url_falsy is_pdf_url_str is_pdf_url_raises patterns_subsumed)

text \<open>
  Claim C10, amended. For every non-empty URL string whose parsing succeeds with path
  \<open>p\<close>, the classifier's result is: the lower-cased path ends in \<^verbatim>\<open>.pdf\<close>, or \<^verbatim>\<open>pdf\<close>
  occurs in the lower-cased URL (the five longer patterns are subsumed by the bare
  \<^verbatim>\<open>pdf\<close>). When the URL holds no tab, carriage return or line feed, the path is a part
  of the URL, the suffix test is subsumed too, and the result is the single test that
  \<^verbatim>\<open>pdf\<close> occurs in the lower-cased URL.
\<close>

theorem classifier_is_pdf_substring:
  "u \<noteq> [] \<Longrightarrow> urlparse_path ok u = Inr p \<Longrightarrow>
   is_pdf_url ok (PyStr u) = Inr (endswith (lower p) (py ''.pdf'') \<or> contains (py ''pdf'') (lower u))
   \<and> ((\<forall>c\<in>set u. \<not> unsafe_url_char c) \<longrightarrow>
        is_pdf_url ok (PyStr u) = Inr (contains (py ''pdf'') (lower u)))"
proof -
  assume u: "u \<noteq> []" and p: "urlparse_path ok u = Inr p"
  have "contains (py ''pdf'') (lower u)"
    if "\<forall>c\<in>set u. \<not> unsafe_url_char c" "endswith (lower p) (py ''.pdf'')"
  proof -
    from p that(1) have "sublist p u" by (rule urlparse_path_sublist)
    moreover from that(2) have "contains (py ''pdf'') (lower p)" by (rule endswith_pdf_contains)
    ultimately show ?thesis by (rule contains_lower)
  qed
  then show ?thesis using is_pdf_url_str [OF u p] by auto
qed

lemmas url_eval =
  is_pdf_url_def urlparse_path_def urlsplit_path_def split_scheme_def splitnetloc_def
  netloc_delim_def c0_control_or_space_def unsafe_url_char_def ascii_alpha_def scheme_char_def
  Let_def py_def lower_def lower_char_def contains_def sublist_code endswith_def
  suffix_to_prefix uses_params_def splitparams_def pdf_patterns_def any_netloc_def

text \<open>
  Claim C5 says that the classifier is total: it never raises, returns true on every URL
  that contains a keyword and false on every input that is not a string. The source's
  docstring promises a \<^verbatim>\<open>bool\<close> and its guard answers bad input with \<^verbatim>\<open>False\<close>, but
  \<^verbatim>\<open>urlparse\<close> is called outside any \<^verbatim>\<open>try\<close>. The URL \<^verbatim>\<open>http://[pdf\<close> contains the keyword
  \<^verbatim>\<open>pdf\<close>, and the classifier raises \<^verbatim>\<open>ValueError\<close> (Invalid IPv6 URL) on it. It also
  raises on a value that is not a string and whose truth test raises, since the guard
  evaluates \<^verbatim>\<open>not url\<close>.
\<close>

theorem classifier_raises:
  "contains (py ''pdf'') (lower (py ''http://[pdf''))
   \<and> is_pdf_url any_netloc (PyStr (py ''http://[pdf'')) = Inl ValueError
   \<and> is_pdf_url any_netloc (PyObj (Inl TypeError)) = Inl TypeError"
  by (simp add: url_eval)

theorem classifier_raises_witness:
  "truthy (PyStr (py ''http://[pdf'')) = Inr True
   \<and> isinstance_str (PyStr (py ''http://[pdf''))
   \<and> urlparse_path any_netloc (py ''http://[pdf'') = Inl ValueError
   \<and> is_pdf_url any_netloc (PyStr (py ''http://[pdf'')) \<noteq> Inr True
   \<and> truthy (PyObj (Inl TypeError)) = Inl TypeError
   \<and> is_pdf_url any_netloc (PyObj (Inl TypeError)) \<noteq> Inr False"
proof -
  have "truthy (PyStr (py ''http://[pdf'')) = Inr True" by (simp add: py_def)
  moreover have "urlparse_path any_netloc (py ''http://[pdf'') = Inl ValueError"
    by (simp add: url_eval)
  ultimately show ?thesis using classifier_raises by simp
qed

text \<open>
  Claim C10, as stated, equates the classifier on every non-empty string with the test
  that \<^verbatim>\<open>pdf\<close> occurs in the lower-cased URL. On \<^verbatim>\<open>a.p\ndf\<close> the parser removes the line
  feed, the path \<^verbatim>\<open>a.pdf\<close> ends in \<^verbatim>\<open>.pdf\<close> and the classifier returns true, while \<^verbatim>\<open>pdf\<close>
  does not occur in the URL.
\<close>

theorem classifier_newline_in_url:
  "is_pdf_url any_netloc (PyStr (py ''a.p'' @ [10] @ py ''df'')) = Inr True
   \<and> \<not> contains (py ''pdf'') (lower (py ''a.p'' @ [10] @ py ''df''))"
  by (simp add: url_eval)

lemma classifier_examples:
  "is_pdf_url any_netloc PyNone = Inr False
   \<and> is_pdf_url any_netloc (PyStr []) = Inr False
   \<and> is_pdf_url any_netloc (PyInt 123) = Inr False
   \<and> urlparse_path any_netloc (py ''https://example.org/Paper.PDF?v=2'') = Inr (py ''/Paper.PDF'')
   \<and> endswith (lower (py ''/Paper.PDF'')) (py ''.pdf'')
   \<and> is_pdf_url any_netloc (PyStr (py ''https://example.org/Paper.PDF?v=2'')) = Inr True
   \<and> urlparse_path any_netloc (py ''https://example.org/get?format=pdf'') = Inr (py ''/get'')
   \<and> list_ex (\<lambda>k. contains k (lower (py ''https://example.org/get?format=pdf''))) pdf_patterns
   \<and> is_pdf_url any_netloc (PyStr (py ''https://example.org/get?format=pdf'')) = Inr True
   \<and> urlparse_path any_netloc (py ''https://example.org/paper'') = Inr (py ''/paper'')
   \<and> is_pdf_url any_netloc (PyStr (py ''https://example.org/paper'')) = Inr False
   \<and> urlparse_path any_netloc (py ''//['') = Inl ValueError
   \<and> is_pdf_url any_netloc (PyStr (py ''//['')) = Inl ValueError"
proof -
  have p1: "urlparse_path any_netloc (py ''https://example.org/Paper.PDF?v=2'') = Inr (py ''/Paper.PDF'')"
    by (simp add: url_eval)
  have e1: "endswith (lower (py ''/Paper.PDF'')) (py ''.pdf'')"
    by (simp add: url_eval)
  have p2: "urlparse_path any_netloc (py ''https://example.org/get?format=pdf'') = Inr (py ''/get'')"
    by (simp add: url_eval)
  have e2: "list_ex (\<lambda>k. contains k (lower (py ''https://example.org/get?format=pdf''))) pdf_patterns"
    by (simp add: url_eval)
  have p3: "urlparse_path any_netloc (py ''https://example.org/paper'') = Inr (py ''/paper'')"
    by (simp add: url_eval)
  have e3: "\<not> endswith (lower (py ''/paper'')) (py ''.pdf'')
      \<and> \<not> list_ex (\<lambda>k. contains k (lower (py ''https://example.org/paper''))) pdf_patterns"
    by (simp add: url_eval)
  have p4: "urlparse_path any_netloc (py ''//['') = Inl ValueError"
    by (simp add: url_eval)
  have ne: "py ''https://example.org/Paper.PDF?v=2'' \<noteq> []" "py ''https://example.org/get?format=pdf'' \<noteq> []"
    "py ''https://example.org/paper'' \<noteq> []" "py ''//['' \<noteq> []"
    by (simp_all add: py_def)
  show ?thesis
    using classifier_algorithm [of any_netloc 123 True TypeError "py ''https://example.org/Paper.PDF?v=2''"
        "py ''/Paper.PDF''" ValueError]
      classifier_algorithm [of any_netloc 123 True TypeError "py ''https://example.org/get?format=pdf''"
        "py ''/get''" ValueError]
      classifier_algorithm [of any_netloc 123 True TypeError "py ''https://example.org/paper''"
        "py ''/paper''" ValueError]
      classifier_algorithm [of any_netloc 123 True TypeError "py ''//[''" "[]" ValueError]
      p1 e1 p2 e2 p3 e3 p4 ne
    by simp
qed

theorem classifier_is_pdf_substring_witness:
  "py ''https://PDFhost.org/x'' \<noteq> []
   \<and> urlparse_path any_netloc (py ''https://PDFhost.org/x'') = Inr (py ''/x'')
   \<and> list_all (\<lambda>c. \<not> unsafe_url_char c) (py ''https://PDFhost.org/x'')
   \<and> contains (py ''pdf'') (lower (py ''https://PDFhost.org/x''))
   \<and> is_pdf_url any_netloc (PyStr (py ''https://PDFhost.org/x'')) = Inr True"
proof -
  have ne: "py ''https://PDFhost.org/x'' \<noteq> []" by (simp add: py_def)
  have p: "urlparse_path any_netloc (py ''https://PDFhost.org/x'') = Inr (py ''/x'')"
    by (simp add: url_eval)
  have s: "list_all (\<lambda>c. \<not> unsafe_url_char c) (py ''https://PDFhost.org/x'')"
    by (simp add: py_def unsafe_url_char_def)
  have c: "contains (py ''pdf'') (lower (py ''https://PDFhost.org/x''))"
    by (simp add: url_eval)
  show ?thesis
    using classifier_is_pdf_substring [OF ne p] ne p s c by (simp add: list_all_iff)
qed

section \<open>The sheet write-back: properties\<close>

subsection \<open>What the merge changes\<close>

lemma methodology_neq_id: "py ''PDF ID'' \<noteq> py ''Methodology''"
  by (simp add: py_def)

lemma merge_row_other: "c \<noteq> py ''Methodology'' \<Longrightarrow> merge_row h sm r c = r c"
  by (simp add: merge_row_def split: cell.splits option.splits)

lemma merge_row_absent:
  "\<not> h \<or> r (py ''PDF ID'') = NaN \<or> (\<exists>s. r (py ''PDF ID'') = Str s \<and> sm (strip s) = None)
   \<Longrightarrow> merge_row h sm r = r"
  by (auto simp: merge_row_def)

lemma merge_row_present:
  "h \<Longrightarrow> r (py ''PDF ID'') = Str s \<Longrightarrow> sm (strip s) = Some v
   \<Longrightarrow> merge_row h sm r (py ''Methodology'') = Str v"
  by (simp add: merge_row_def)

lemma merge_columns:
  "columns (merge_methodology df sm)
   = (if py ''Methodology'' \<in> set (columns df) then columns df else columns df @ [py ''Methodology''])"
  by (simp add: merge_methodology_def set_column_def Let_def)

lemma merge_length: "length (rows (merge_methodology df sm)) = length (rows df)"
  by (simp add: merge_methodology_def set_column_def Let_def)

lemma merge_nth:
  "i < length (rows df) \<Longrightarrow>
   rows (merge_methodology df sm) ! i
   = merge_row (py ''PDF ID'' \<in> set (columns df)) sm ((rows df ! i)(py ''Methodology'' := Str []))"
  using methodology_neq_id by (auto simp: merge_methodology_def set_column_def Let_def)

lemma merge_empty: "merge_methodology df Map.empty = set_column df (py ''Methodology'') []"
proof -
  have "merge_row h Map.empty = (\<lambda>r. r)" for h
    by (rule ext) (simp add: merge_row_def split: cell.splits)
  then show ?thesis by (simp add: merge_methodology_def Let_def)
qed

text \<open>
  Claim C1, amended. The merge keeps the number of rows, adds the column
  \<^verbatim>\<open>Methodology\<close> when it is absent, and leaves every cell of every other column as it
  was. A row whose \<^verbatim>\<open>PDF ID\<close> has no matching key in the mapping (or is missing, or when
  the table has no \<^verbatim>\<open>PDF ID\<close> column) gets the empty string in \<^verbatim>\<open>Methodology\<close>, whatever the
  cell held before; a row whose stripped \<^verbatim>\<open>PDF ID\<close> is a key gets the mapped summary.
  Merging the empty mapping sets the whole \<^verbatim>\<open>Methodology\<close> column to the empty string.
\<close>

theorem merge_frame:
  "columns (merge_methodology df sm)
     = (if py ''Methodology'' \<in> set (columns df) then columns df else columns df @ [py ''Methodology''])
   \<and> length (rows (merge_methodology df sm)) = length (rows df)
   \<and> (\<forall>i<length (rows df). \<forall>c. c \<noteq> py ''Methodology'' \<longrightarrow>
         (rows (merge_methodology df sm) ! i) c = (rows df ! i) c)
   \<and> (\<forall>i<length (rows df).
         py ''PDF ID'' \<notin> set (columns df) \<or> (rows df ! i) (py ''PDF ID'') = NaN
         \<or> (\<exists>s. (rows df ! i) (py ''PDF ID'') = Str s \<and> sm (strip s) = None)
         \<longrightarrow> (rows (merge_methodology df sm) ! i) (py ''Methodology'') = Str [])
   \<and> (\<forall>i<length (rows df). \<forall>s v.
         py ''PDF ID'' \<in> set (columns df) \<and> (rows df ! i) (py ''PDF ID'') = Str s \<and> sm (strip s) = Some v
         \<longrightarrow> (rows (merge_methodology df sm) ! i) (py ''Methodology'') = Str v)
   \<and> merge_methodology df Map.empty = set_column df (py ''Methodology'') []"
proof (intro conjI allI impI)
  show "columns (merge_methodology df sm)
     = (if py ''Methodology'' \<in> set (columns df) then columns df else columns df @ [py ''Methodology''])"
    by (rule merge_columns)
  show "length (rows (merge_methodology df sm)) = length (rows df)" by (rule merge_length)
  show "merge_methodology df Map.empty = set_column df (py ''Methodology'') []" by (rule merge_empty)
next
  fix i c assume "i < length (rows df)" "c \<noteq> py ''Methodology''"
  then show "(rows (merge_methodology df sm) ! i) c = (rows df ! i) c"
    by (simp add: merge_nth merge_row_other)
next
  fix i
  assume i: "i < length (rows df)"
    and a: "py ''PDF ID'' \<notin> set (columns df) \<or> (rows df ! i) (py ''PDF ID'') = NaN
         \<or> (\<exists>s. (rows df ! i) (py ''PDF ID'') = Str s \<and> sm (strip s) = None)"
  let ?r = "(rows df ! i)(py ''Methodology'' := Str [])"
  have "?r (py ''PDF ID'') = (rows df ! i) (py ''PDF ID'')" using methodology_neq_id by simp
  with a have "merge_row (py ''PDF ID'' \<in> set (columns df)) sm ?r = ?r"
    by (intro merge_row_absent) auto
  with i show "(rows (merge_methodology df sm) ! i) (py ''Methodology'') = Str []"
    by (simp add: merge_nth)
next
  fix i s v
  assume i: "i < length (rows df)"
    and a: "py ''PDF ID'' \<in> set (columns df) \<and> (rows df ! i) (py ''PDF ID'') = Str s \<and> sm (strip s) = Some v"
  let ?r = "(rows df ! i)(py ''Methodology'' := Str [])"
  have "?r (py ''PDF ID'') = Str s" using a methodology_neq_id by simp
  with a have "merge_row (py ''PDF ID'' \<in> set (columns df)) sm ?r (py ''Methodology'') = Str v"
    by (intro merge_row_present) auto
  with i show "(rows (merge_methodology df sm) ! i) (py ''Methodology'') = Str v"
    by (simp add: merge_nth)
qed

text \<open>
  Claim C1, as stated, says that a row without a matching key keeps what was in its
  \<^verbatim>\<open>Methodology\<close> cell and that merging the empty mapping leaves the table unchanged.
  On a table whose row holds \<^verbatim>\<open>OLD\<close> in that cell, merging the empty mapping blanks it.
\<close>

theorem merge_blanks_old_summary:
  "(rows summarised_table ! 0) (py ''Methodology'') = Str (py ''OLD'')
   \<and> (rows (merge_methodology summarised_table Map.empty) ! 0) (py ''Methodology'') = Str []"
  by (simp add: summarised_table_def merge_methodology_def set_column_def merge_row_def Let_def py_def)

lemma strip_ascii_id: "strip (py ''a1b2c3d4'') = py ''a1b2c3d4''" "strip [] = []"
  by (simp_all add: strip_def lstrip_def rstrip_def py_def isspace_def)

theorem merge_frame_witness:
  "columns (merge_methodology spec_table spec_summaries) = [py ''PDF ID'', py ''Methodology'']
   \<and> length (rows (merge_methodology spec_table spec_summaries)) = 2
   \<and> (rows (merge_methodology spec_table spec_summaries) ! 0) (py ''PDF ID'') = Str (py ''a1b2c3d4'')
   \<and> (rows (merge_methodology spec_table spec_summaries) ! 0) (py ''Methodology'') = Str (py ''SUMMARY'')
   \<and> (rows (merge_methodology spec_table spec_summaries) ! 1) (py ''PDF ID'') = Str []
   \<and> (rows (merge_methodology spec_table spec_summaries) ! 1) (py ''Methodology'') = Str []
   \<and> merge_methodology spec_table Map.empty = set_column spec_table (py ''Methodology'') []"
proof -
  note f = merge_frame [of spec_table spec_summaries]
  have c: "py ''PDF ID'' \<in> set (columns spec_table)" "py ''Methodology'' \<in> set (columns spec_table)"
    "length (rows spec_table) = 2" "columns spec_table = [py ''PDF ID'', py ''Methodology'']"
    by (simp_all add: spec_table_def)
  have r0: "(rows spec_table ! 0) (py ''PDF ID'') = Str (py ''a1b2c3d4'')"
    and r1: "(rows spec_table ! 1) (py ''PDF ID'') = Str []"
    using methodology_neq_id by (simp_all add: spec_table_def)
  have s0: "spec_summaries (strip (py ''a1b2c3d4'')) = Some (py ''SUMMARY'')"
    and s1: "spec_summaries (strip []) = None"
    by (simp_all add: strip_ascii_id spec_summaries_def) (simp add: py_def)
  from f c have "columns (merge_methodology spec_table spec_summaries) = [py ''PDF ID'', py ''Methodology'']"
    by simp
  moreover from f c have "length (rows (merge_methodology spec_table spec_summaries)) = 2" by simp
  moreover from f c r0 methodology_neq_id
  have "(rows (merge_methodology spec_table spec_summaries) ! 0) (py ''PDF ID'') = Str (py ''a1b2c3d4'')"
    by simp
  moreover from f c r0 s0
  have "(rows (merge_methodology spec_table spec_summaries) ! 0) (py ''Methodology'') = Str (py ''SUMMARY'')"
    by simp
  moreover from f c r1 methodology_neq_id
  have "(rows (merge_methodology spec_table spec_summaries) ! 1) (py ''PDF ID'') = Str []"
    by simp
  moreover from f c r1 s1
  have "(rows (merge_methodology spec_table spec_summaries) ! 1) (py ''Methodology'') = Str []"
    by simp
  moreover from f have "merge_methodology spec_table Map.empty = set_column spec_table (py ''Methodology'') []"
    by simp
  ultimately show ?thesis by simp
qed

subsection \<open>The end column of the range\<close>

lemma end_col_letter:
  "1 \<le> length (columns df) \<Longrightarrow> length (columns df) \<le> 26 \<Longrightarrow>
   end_col df = Inr [py ''ABCDEFGHIJKLMNOPQRSTUVWXYZ'' ! (length (columns df) - 1)]"
proof -
  assume a: "1 \<le> length (columns df)" "length (columns df) \<le> 26"
  have nth: "py ''ABCDEFGHIJKLMNOPQRSTUVWXYZ'' ! k = 65 + k" if "k < 26" for k
  proof -
    have "py ''ABCDEFGHIJKLMNOPQRSTUVWXYZ'' = map (\<lambda>k. 65 + k) [0..<26]"
      by code_simp
    with that show ?thesis by simp
  qed
  from a have "end_col df = Inr [65 + (length (columns df) - 1)]"
    by (simp add: end_col_def chr_def nat_add_distrib nat_diff_distrib)
  with a show ?thesis by (simp add: nth)
qed

text \<open>
  Claim C9. The values are the header row and the cleaned rows, and the range is
  \<^verbatim>\<open><sheet>!A1:<endCol><endRow>\<close> with the row count including the header. The end column is
  the Nth letter for 1 to 26 columns (\<open>end_col_letter\<close>). The source's comment reads
  ``Convert to Excel column letter'', but on a table of 27 columns the code yields the
  character after \<^verbatim>\<open>Z\<close>, an opening square bracket, and the range \<^verbatim>\<open>Sheet1!A1:[2\<close>, which
  names no column.
\<close>

theorem range_past_column_26:
  "length (columns wide_table) = 27
   \<and> range_name (py ''Sheet1'') wide_table = Inr (py ''Sheet1!A1:[2'')"
  by (simp add: wide_table_def range_name_def end_col_def chr_def sheet_values_def data_rows_def py_def)

section \<open>The download pass: properties\<close>

subsection \<open>Identifiers and column names\<close>

lemma length_generate_unique_id: "length (generate_unique_id u) = 8"
  by (simp add: generate_unique_id_def uuid_str_def uuid_hex_def Let_def)

lemma pass_columns_distinct:
  "py ''PDF Available'' \<noteq> py ''PDF ID''" "py ''PDF Available'' \<noteq> py ''PDF Path''"
  "py ''PDF ID'' \<noteq> py ''PDF Path''"
  by (simp_all add: py_def)

lemma status_distinct:
  "py ''Yes'' \<noteq> py ''No''" "py ''Yes'' \<noteq> py ''Failed''" "py ''No'' \<noteq> py ''Failed''"
  by (simp_all add: py_def)

subsection \<open>Every row the pass returns is settled\<close>

lemma process_row_cases:
  assumes "process_row w link i r = Inr r'"
  shows "r' = r
    \<or> (fetch w i \<noteq> Fetched \<and> r' = r(py ''PDF Available'' := Str (py ''Failed'')))
    \<or> (fetch w i = Fetched \<and> r' = r(py ''PDF Available'' := Str (py ''Yes''),
          py ''PDF ID'' := Str (generate_unique_id (uuid4 w i)),
          py ''PDF Path'' := Str (py ''papers_pdf_id/'' @ generate_unique_id (uuid4 w i) @ py ''.pdf'')))"
  using assms
  by (auto simp: process_row_def download_pdf_def Let_def
      split: cell.splits if_splits sum.splits bool.splits fetch_outcome.splits option.splits)

lemma process_row_settled:
  assumes "fresh_row r" "process_row w link i r = Inr r'"
  shows "settled_row r'"
proof -
  from assms(2) consider "r' = r"
    | "r' = r(py ''PDF Available'' := Str (py ''Failed''))"
    | "r' = r(py ''PDF Available'' := Str (py ''Yes''),
          py ''PDF ID'' := Str (generate_unique_id (uuid4 w i)),
          py ''PDF Path'' := Str (py ''papers_pdf_id/'' @ generate_unique_id (uuid4 w i) @ py ''.pdf''))"
    using process_row_cases by blast
  then show ?thesis
  proof cases
    case 1
    with assms(1) show ?thesis
      using status_distinct by (simp add: fresh_row_def settled_row_def)
  next
    case 2
    with assms(1) show ?thesis
      using status_distinct pass_columns_distinct by (simp add: fresh_row_def settled_row_def)
  next
    case 3
    then show ?thesis
      using status_distinct pass_columns_distinct
      by (simp add: settled_row_def length_generate_unique_id)
  qed
qed

lemma process_rows_settled:
  "\<forall>r\<in>set rs. fresh_row r \<Longrightarrow> process_rows w link i rs = Inr rs' \<Longrightarrow> \<forall>r\<in>set rs'. settled_row r"
proof (induction rs arbitrary: i rs')
  case Nil
  then show ?case by simp
next
  case (Cons r rs)
  from Cons.prems(2) obtain r' rs'' where r': "process_row w link i r = Inr r'"
    and rs'': "process_rows w link (Suc i) rs = Inr rs''" and eq: "rs' = r' # rs''"
    by (auto split: sum.splits)
  from Cons.prems(1) r' have "settled_row r'" by (auto intro: process_row_settled)
  moreover from Cons.prems(1) rs'' have "\<forall>x\<in>set rs''. settled_row x"
    by (intro Cons.IH) auto
  ultimately show ?case using eq by simp
qed

lemma fresh_rows:
  "\<forall>r\<in>set (rows (set_column (set_column (set_column df (py ''PDF Available'') (py ''No''))
       (py ''PDF ID'') []) (py ''PDF Path'') [])). fresh_row r"
  using pass_columns_distinct by (auto simp: set_column_def fresh_row_def)

lemma endswith_path: "endswith (py ''papers_pdf_id/'' @ uid @ py ''.pdf'') (uid @ py ''.pdf'')"
  by (simp add: endswith_def suffix_def)

text \<open>
  Claim C2. After the download pass over a table that has the link column, every row
  with \<^verbatim>\<open>PDF Available = Yes\<close> has a non-empty \<^verbatim>\<open>PDF ID\<close> of 8 characters and a \<^verbatim>\<open>PDF Path\<close>
  that ends in the identifier followed by \<^verbatim>\<open>.pdf\<close>; every row with \<^verbatim>\<open>No\<close> or \<^verbatim>\<open>Failed\<close> has
  an empty \<^verbatim>\<open>PDF ID\<close> and an empty \<^verbatim>\<open>PDF Path\<close>; and every row has one of the three values.
\<close>

theorem download_pass_invariant:
  assumes "link \<in> set (columns df)"
    and "process_links_and_download_pdfs w df link = Inr df'"
    and "r \<in> set (rows df')"
  shows "(r (py ''PDF Available'') = Str (py ''Yes'') \<longrightarrow>
            (\<exists>uid p. r (py ''PDF ID'') = Str uid \<and> length uid = 8 \<and> uid \<noteq> []
               \<and> r (py ''PDF Path'') = Str p \<and> endswith p (uid @ py ''.pdf'')))
       \<and> (r (py ''PDF Available'') = Str (py ''No'') \<or> r (py ''PDF Available'') = Str (py ''Failed'')
            \<longrightarrow> r (py ''PDF ID'') = Str [] \<and> r (py ''PDF Path'') = Str [])
       \<and> (r (py ''PDF Available'') = Str (py ''Yes'') \<or> r (py ''PDF Available'') = Str (py ''No'')
            \<or> r (py ''PDF Available'') = Str (py ''Failed''))"
proof -
  let ?df = "set_column (set_column (set_column df (py ''PDF Available'') (py ''No''))
       (py ''PDF ID'') []) (py ''PDF Path'') []"
  from assms(1,2) obtain rs where rs: "process_rows w link 0 (rows ?df) = Inr rs"
    and df': "df' = ?df\<lparr>rows := rs\<rparr>"
    by (auto simp: process_links_and_download_pdfs_def Let_def split: sum.splits)
  from fresh_rows rs have "\<forall>x\<in>set rs. settled_row x" by (rule process_rows_settled)
  with assms(3) df' have s: "settled_row r" by simp
  show ?thesis
  proof (intro conjI impI)
    assume "r (py ''PDF Available'') = Str (py ''Yes'')"
    with s obtain uid where u: "r (py ''PDF ID'') = Str uid" "length uid = 8"
      "r (py ''PDF Path'') = Str (py ''papers_pdf_id/'' @ uid @ py ''.pdf'')"
      by (auto simp: settled_row_def)
    from u(2) have "uid \<noteq> []" by auto
    with u endswith_path [of uid]
    show "\<exists>uid p. r (py ''PDF ID'') = Str uid \<and> length uid = 8 \<and> uid \<noteq> []
               \<and> r (py ''PDF Path'') = Str p \<and> endswith p (uid @ py ''.pdf'')"
      by blast
  next
    assume "r (py ''PDF Available'') = Str (py ''No'') \<or> r (py ''PDF Available'') = Str (py ''Failed'')"
    with s show "r (py ''PDF ID'') = Str []" "r (py ''PDF Path'') = Str []"
      by (auto simp: settled_row_def)
  next
    from s show "r (py ''PDF Available'') = Str (py ''Yes'') \<or> r (py ''PDF Available'') = Str (py ''No'')
            \<or> r (py ''PDF Available'') = Str (py ''Failed'')"
      by (simp add: settled_row_def)
  qed
qed

subsection \<open>Rows are processed one by one\<close>

lemma process_rows_nth:
  "process_rows w link i rs = Inr rs' \<Longrightarrow>
   length rs' = length rs \<and> (\<forall>k<length rs. process_row w link (i + k) (rs ! k) = Inr (rs' ! k))"
proof (induction rs arbitrary: i rs')
  case Nil
  then show ?case by simp
next
  case (Cons r rs)
  from Cons.prems obtain r' rs'' where r': "process_row w link i r = Inr r'"
    and rs'': "process_rows w link (Suc i) rs = Inr rs''" and eq: "rs' = r' # rs''"
    by (auto split: sum.splits)
  from Cons.IH [OF rs''] have l: "length rs'' = length rs"
    and n: "\<forall>k<length rs. process_row w link (Suc i + k) (rs ! k) = Inr (rs'' ! k)" by simp_all
  have "process_row w link (i + k) ((r # rs) ! k) = Inr (rs' ! k)" if "k < length (r # rs)" for k
  proof (cases k)
    case 0
    with r' eq show ?thesis by simp
  next
    case (Suc j)
    with that n eq show ?thesis by simp
  qed
  with l eq show ?case by simp
qed

lemma process_row_raises:
  "process_row w link i r = Inl e \<Longrightarrow>
   \<exists>url. r link = Str url \<and> is_pdf_url (netloc_ok w) (PyStr url) = Inl e"
  by (auto simp: process_row_def download_pdf_def Let_def
      split: cell.splits if_splits sum.splits bool.splits fetch_outcome.splits option.splits)

lemma process_rows_returns:
  "\<forall>r\<in>set rs. \<forall>url. r link = Str url \<longrightarrow> is_pdf_url (netloc_ok w) (PyStr url) \<noteq> Inl ValueError
   \<Longrightarrow> \<exists>rs'. process_rows w link i rs = Inr rs'"
proof (induction rs arbitrary: i)
  case Nil
  show ?case by simp
next
  case (Cons r rs)
  have "process_row w link i r \<noteq> Inl e" for e
  proof
    assume "process_row w link i r = Inl e"
    then obtain url where u: "r link = Str url" "is_pdf_url (netloc_ok w) (PyStr url) = Inl e"
      using process_row_raises by blast
    from u(2) have "e = ValueError" by (rule is_pdf_url_str_error)
    with u Cons.prems show False by auto
  qed
  then obtain r' where r': "process_row w link i r = Inr r'"
    by (cases "process_row w link i r") auto
  from Cons.prems have "\<exists>rs'. process_rows w link (Suc i) rs = Inr rs'"
    by (intro Cons.IH) auto
  with r' show ?case by auto
qed

lemma process_row_failed:
  assumes "r link = Str url" "strip url \<noteq> []" "is_pdf_url (netloc_ok w) (PyStr url) = Inr True"
    "fetch w i \<noteq> Fetched"
  shows "process_row w link i r = Inr (r(py ''PDF Available'' := Str (py ''Failed'')))"
  using assms by (cases "fetch w i") (simp_all add: process_row_def download_pdf_def Let_def)

lemma process_row_fetched:
  assumes "r link = Str url" "strip url \<noteq> []" "is_pdf_url (netloc_ok w) (PyStr url) = Inr True"
    "fetch w i = Fetched"
  shows "process_row w link i r = Inr (r(py ''PDF Available'' := Str (py ''Yes''),
          py ''PDF ID'' := Str (generate_unique_id (uuid4 w i)),
          py ''PDF Path'' := Str (py ''papers_pdf_id/'' @ generate_unique_id (uuid4 w i) @ py ''.pdf'')))"
  using assms by (simp add: process_row_def download_pdf_def Let_def)

lemma init_rows:
  "rows (set_column (set_column (set_column df (py ''PDF Available'') (py ''No''))
       (py ''PDF ID'') []) (py ''PDF Path'') []) = map init_row (rows df)"
  by (simp add: set_column_def init_row_def)

lemma init_row_cells:
  "init_row r (py ''PDF Available'') = Str (py ''No'')" "init_row r (py ''PDF ID'') = Str []"
  "init_row r (py ''PDF Path'') = Str []"
  "c \<notin> set pass_columns \<Longrightarrow> init_row r c = r c"
  using pass_columns_distinct by (auto simp: init_row_def pass_columns_def)

lemma pass_result:
  assumes "link \<in> set (columns df)" "process_links_and_download_pdfs w df link = Inr df'"
  shows "length (rows df') = length (rows df)"
    and "k < length (rows df) \<Longrightarrow> process_row w link k (init_row (rows df ! k)) = Inr (rows df' ! k)"
proof -
  from assms obtain rs where rs: "process_rows w link 0 (map init_row (rows df)) = Inr rs"
    and df': "rows df' = rs"
    by (auto simp: process_links_and_download_pdfs_def Let_def init_rows split: sum.splits)
  from process_rows_nth [OF rs] df' show "length (rows df') = length (rows df)" by simp
  from process_rows_nth [OF rs] df'
  show "k < length (rows df) \<Longrightarrow> process_row w link k (init_row (rows df ! k)) = Inr (rows df' ! k)"
    by simp
qed

lemma pass_returns:
  assumes "link \<in> set (columns df)" "link \<notin> set pass_columns"
    and "\<forall>r\<in>set (rows df). \<forall>url. r link = Str url \<longrightarrow>
           is_pdf_url (netloc_ok w) (PyStr url) \<noteq> Inl ValueError"
  shows "\<exists>df'. process_links_and_download_pdfs w df link = Inr df'"
proof -
  have "\<forall>r\<in>set (map init_row (rows df)). \<forall>url. r link = Str url \<longrightarrow>
           is_pdf_url (netloc_ok w) (PyStr url) \<noteq> Inl ValueError"
    using assms(2,3) by (auto simp: init_row_cells)
  then have "\<exists>rs'. process_rows w link 0 (map init_row (rows df)) = Inr rs'"
    by (rule process_rows_returns)
  with assms(1) show ?thesis
    by (auto simp: process_links_and_download_pdfs_def Let_def init_rows)
qed

lemma pass_failed_row:
  assumes "link \<in> set (columns df)" "link \<notin> set pass_columns"
    and "process_links_and_download_pdfs w df link = Inr df'"
    and "i < length (rows df)" "(rows df ! i) link = Str url" "strip url \<noteq> []"
    and "is_pdf_url (netloc_ok w) (PyStr url) = Inr True" "fetch w i \<noteq> Fetched"
  shows "(rows df' ! i) (py ''PDF Available'') = Str (py ''Failed'')
       \<and> (rows df' ! i) (py ''PDF ID'') = Str [] \<and> (rows df' ! i) (py ''PDF Path'') = Str []"
proof -
  from assms(2,5) have "init_row (rows df ! i) link = Str url" by (simp add: init_row_cells)
  then have "process_row w link i (init_row (rows df ! i))
      = Inr ((init_row (rows df ! i))(py ''PDF Available'' := Str (py ''Failed'')))"
    using assms(6,7,8) by (rule process_row_failed)
  with pass_result(2) [OF assms(1,3,4)]
  have "rows df' ! i = (init_row (rows df ! i))(py ''PDF Available'' := Str (py ''Failed''))" by simp
  then show ?thesis using pass_columns_distinct by (simp add: init_row_cells)
qed

lemma pass_fetched_row:
  assumes "link \<in> set (columns df)" "link \<notin> set pass_columns"
    and "process_links_and_download_pdfs w df link = Inr df'"
    and "i < length (rows df)" "(rows df ! i) link = Str url" "strip url \<noteq> []"
    and "is_pdf_url (netloc_ok w) (PyStr url) = Inr True" "fetch w i = Fetched"
  shows "(rows df' ! i) (py ''PDF Available'') = Str (py ''Yes'')
       \<and> (rows df' ! i) (py ''PDF ID'') = Str (generate_unique_id (uuid4 w i))
       \<and> (rows df' ! i) (py ''PDF Path'')
          = Str (py ''papers_pdf_id/'' @ generate_unique_id (uuid4 w i) @ py ''.pdf'')"
proof -
  from assms(2,5) have "init_row (rows df ! i) link = Str url" by (simp add: init_row_cells)
  then have "process_row w link i (init_row (rows df ! i))
      = Inr ((init_row (rows df ! i))(py ''PDF Available'' := Str (py ''Yes''),
          py ''PDF ID'' := Str (generate_unique_id (uuid4 w i)),
          py ''PDF Path'' := Str (py ''papers_pdf_id/'' @ generate_unique_id (uuid4 w i) @ py ''.pdf'')))"
    using assms(6,7,8) by (rule process_row_fetched)
  with pass_result(2) [OF assms(1,3,4)]
  have "rows df' ! i = (init_row (rows df ! i))(py ''PDF Available'' := Str (py ''Yes''),
          py ''PDF ID'' := Str (generate_unique_id (uuid4 w i)),
          py ''PDF Path'' := Str (py ''papers_pdf_id/'' @ generate_unique_id (uuid4 w i) @ py ''.pdf''))"
    by simp
  then show ?thesis using pass_columns_distinct by simp
qed

text \<open>
  Claim C6. Let the link column be a column of the table other than the three columns
  the pass writes. The pass returns whatever the downloads do, as long as the
  classifier raises on no link. In the table it returns, a row whose link is classified
  as a PDF and whose download failed (with any exception) has \<^verbatim>\<open>PDF Available = Failed\<close>
  and empty \<^verbatim>\<open>PDF ID\<close> and \<^verbatim>\<open>PDF Path\<close>, the table has as many rows as before, and every
  row whose link is classified as a PDF and whose download succeeded is marked \<^verbatim>\<open>Yes\<close>,
  also after a failed one.
\<close>

theorem fetch_failure_marks_failed:
  assumes "link \<in> set (columns df)" and "link \<notin> set pass_columns"
  shows "((\<forall>r\<in>set (rows df). \<forall>url. r link = Str url \<longrightarrow>
             is_pdf_url (netloc_ok w) (PyStr url) \<noteq> Inl ValueError)
          \<longrightarrow> (\<exists>df'. process_links_and_download_pdfs w df link = Inr df'))
       \<and> (process_links_and_download_pdfs w df link = Inr df' \<longrightarrow>
            length (rows df') = length (rows df)
            \<and> (\<forall>i<length (rows df). \<forall>url.
                 (rows df ! i) link = Str url \<and> strip url \<noteq> []
                 \<and> is_pdf_url (netloc_ok w) (PyStr url) = Inr True \<and> fetch w i \<noteq> Fetched
                 \<longrightarrow> (rows df' ! i) (py ''PDF Available'') = Str (py ''Failed'')
                     \<and> (rows df' ! i) (py ''PDF ID'') = Str []
                     \<and> (rows df' ! i) (py ''PDF Path'') = Str [])
            \<and> (\<forall>j<length (rows df). \<forall>url.
                 (rows df ! j) link = Str url \<and> strip url \<noteq> []
                 \<and> is_pdf_url (netloc_ok w) (PyStr url) = Inr True \<and> fetch w j = Fetched
                 \<longrightarrow> (rows df' ! j) (py ''PDF Available'') = Str (py ''Yes'')))"
  using pass_returns [OF assms, of w] pass_result(1) [OF assms(1), of w df']
    pass_failed_row [OF assms, of w df'] pass_fetched_row [OF assms, of w df']
  by blast

subsection \<open>A sheet of three links\<close>

lemma generate_unique_id_top:
  "generate_unique_id u = map (\<lambda>k. hex_digit ((u div 16 ^ (31 - k)) mod 16)) [0..<8]"
  by (simp add: generate_unique_id_def uuid_str_def uuid_hex_def Let_def take_map)

lemma upt_8: "[0..<8] = [0, 1, 2, 3, 4, 5, 6, 7]"
  by code_simp

lemma example_id: "generate_unique_id (uuid4 example_world 0) = py ''3b241101''"
  by (simp add: generate_unique_id_top example_world_def upt_8 hex_digit_def py_def)

lemma example_urls:
  "is_pdf_url any_netloc (PyStr (py ''https://example.org/paper.pdf'')) = Inr True"
  "is_pdf_url any_netloc (PyStr (py ''https://example.org/lost.pdf'')) = Inr True"
  "is_pdf_url any_netloc (PyStr (py ''https://example.org/page'')) = Inr False"
  by (simp_all add: url_eval)

lemma example_urls_not_blank:
  "strip (py ''https://example.org/paper.pdf'') \<noteq> []"
  "strip (py ''https://example.org/lost.pdf'') \<noteq> []"
  by (simp_all add: strip_def lstrip_def rstrip_def py_def isspace_def)

lemma example_sheet_facts:
  "py ''link'' \<in> set (columns example_sheet)" "py ''link'' \<notin> set pass_columns"
  "length (rows example_sheet) = 3"
  "(rows example_sheet ! 0) (py ''link'') = Str (py ''https://example.org/paper.pdf'')"
  "(rows example_sheet ! 1) (py ''link'') = Str (py ''https://example.org/lost.pdf'')"
  "fetch example_world 0 = Fetched" "fetch example_world 1 \<noteq> Fetched"
  "netloc_ok example_world = any_netloc"
  by (simp_all add: example_sheet_def example_world_def pass_columns_def py_def)

lemma example_no_raise:
  "\<forall>r\<in>set (rows example_sheet). \<forall>url. r (py ''link'') = Str url \<longrightarrow>
     is_pdf_url (netloc_ok example_world) (PyStr url) \<noteq> Inl ValueError"
proof -
  have l: "py ''title'' \<noteq> py ''link''" by (simp add: py_def)
  show ?thesis
    using example_urls l by (auto simp: example_sheet_def example_sheet_facts(8))
qed

lemma example_returns:
  "process_links_and_download_pdfs example_world example_sheet (py ''link'') = Inr example_result"
  using pass_returns [OF example_sheet_facts(1,2) example_no_raise]
  by (auto simp: example_result_def)

theorem fetch_failure_marks_failed_witness:
  "py ''link'' \<in> set (columns example_sheet)
   \<and> process_links_and_download_pdfs example_world example_sheet (py ''link'') = Inr example_result
   \<and> length (rows example_result) = 3
   \<and> (rows example_sheet ! 1) (py ''link'') = Str (py ''https://example.org/lost.pdf'')
   \<and> is_pdf_url any_netloc (PyStr (py ''https://example.org/lost.pdf'')) = Inr True
   \<and> fetch example_world 1 = RequestFailed
   \<and> (rows example_result ! 1) (py ''PDF Available'') = Str (py ''Failed'')
   \<and> (rows example_result ! 1) (py ''PDF ID'') = Str []
   \<and> (rows example_result ! 1) (py ''PDF Path'') = Str []
   \<and> fetch example_world 0 = Fetched
   \<and> (rows example_result ! 0) (py ''PDF Available'') = Str (py ''Yes'')"
proof -
  note t = fetch_failure_marks_failed [OF example_sheet_facts(1,2), of example_world example_result]
  from t example_no_raise
  have r: "process_links_and_download_pdfs example_world example_sheet (py ''link'') = Inr example_result"
    by (auto simp: example_result_def)
  with t have l: "length (rows example_result) = 3" by (simp add: example_sheet_facts)
  from t r have "(rows example_result ! 1) (py ''PDF Available'') = Str (py ''Failed'')
     \<and> (rows example_result ! 1) (py ''PDF ID'') = Str []
     \<and> (rows example_result ! 1) (py ''PDF Path'') = Str []"
    using example_sheet_facts example_urls example_urls_not_blank by simp
  moreover from t r have "(rows example_result ! 0) (py ''PDF Available'') = Str (py ''Yes'')"
    using example_sheet_facts example_urls example_urls_not_blank by simp
  moreover have "fetch example_world 1 = RequestFailed" by (simp add: example_world_def)
  ultimately show ?thesis using r l example_sheet_facts example_urls by simp
qed

theorem download_pass_invariant_witness:
  "py ''link'' \<in> set (columns example_sheet)
   \<and> process_links_and_download_pdfs example_world example_sheet (py ''link'') = Inr example_result
   \<and> rows example_result ! 0 \<in> set (rows example_result)
   \<and> (rows example_result ! 0) (py ''PDF Available'') = Str (py ''Yes'')
   \<and> (rows example_result ! 0) (py ''PDF ID'') = Str (py ''3b241101'')
   \<and> (rows example_result ! 0) (py ''PDF Path'') = Str (py ''papers_pdf_id/3b241101.pdf'')
   \<and> endswith (py ''papers_pdf_id/3b241101.pdf'') (py ''3b241101'' @ py ''.pdf'')
   \<and> rows example_result ! 1 \<in> set (rows example_result)
   \<and> (rows example_result ! 1) (py ''PDF Available'') = Str (py ''Failed'')
   \<and> (rows example_result ! 1) (py ''PDF ID'') = Str []
   \<and> (rows example_result ! 1) (py ''PDF Path'') = Str []"
proof -
  note r = example_returns
  note f = example_sheet_facts
  from pass_result(1) [OF f(1) r] have l: "length (rows example_result) = 3" by (simp add: f)
  then have m: "rows example_result ! 0 \<in> set (rows example_result)"
    "rows example_result ! 1 \<in> set (rows example_result)" by simp_all
  have y: "(rows example_result ! 0) (py ''PDF Available'') = Str (py ''Yes'')
     \<and> (rows example_result ! 0) (py ''PDF ID'') = Str (py ''3b241101'')
     \<and> (rows example_result ! 0) (py ''PDF Path'') = Str (py ''papers_pdf_id/'' @ py ''3b241101'' @ py ''.pdf'')"
    using pass_fetched_row [OF f(1,2) r _ f(4) example_urls_not_blank(1) _ f(6)] f(3,8)
      example_urls(1) example_id by simp
  have n: "(rows example_result ! 1) (py ''PDF Available'') = Str (py ''Failed'')"
    using pass_failed_row [OF f(1,2) r _ f(5) example_urls_not_blank(2) _ f(7)] f(3,8)
      example_urls(2) by simp
  have cat: "py ''papers_pdf_id/'' @ py ''3b241101'' @ py ''.pdf'' = py ''papers_pdf_id/3b241101.pdf''"
    by (simp add: py_def)
  note t0 = download_pass_invariant [OF f(1) r m(1)]
  note t1 = download_pass_invariant [OF f(1) r m(2)]
  from t1 n have "(rows example_result ! 1) (py ''PDF ID'') = Str []
     \<and> (rows example_result ! 1) (py ''PDF Path'') = Str []" by simp
  moreover from t0 y have "endswith (py ''papers_pdf_id/3b241101.pdf'') (py ''3b241101'' @ py ''.pdf'')"
    by (auto simp: cat)
  ultimately show ?thesis using f(1) r m y n by (simp add: cat)
qed

section \<open>The extraction engine: properties\<close>

subsection \<open>When the polling loop returns\<close>

lemma wait_settles:
  "settles retrieve k status n final \<Longrightarrow>
   wait_for_completion retrieve k status = Some (Some final, k + n)"
proof (induction n arbitrary: k status)
  case 0
  then show ?case by (simp add: wait_for_completion.simps)
next
  case (Suc n)
  then obtain status' where p: "pending status" and r: "retrieve k = Some status'"
    and s: "settles retrieve (Suc k) status' n final"
    by (auto split: option.splits)
  from Suc.IH [OF s] p r show ?case
    by (subst wait_for_completion.simps) simp
qed

lemma wait_breaks:
  "breaks retrieve k status n \<Longrightarrow>
   wait_for_completion retrieve k status = Some (None, Suc (k + n))"
proof (induction n arbitrary: k status)
  case 0
  then show ?case by (simp add: wait_for_completion.simps)
next
  case (Suc n)
  then obtain status' where p: "pending status" and r: "retrieve k = Some status'"
    and s: "breaks retrieve (Suc k) status' n"
    by (auto split: option.splits)
  from Suc.IH [OF s] p r show ?case
    by (subst wait_for_completion.simps) simp
qed

subsection \<open>Strategy A\<close>

lemma assistants_no_chat:
  "generate_methodology_summary_with_assistants api file_id name = Some (summary, analysed)
   \<Longrightarrow> filter is_chat analysed = []"
  by (auto simp: generate_methodology_summary_with_assistants_def Let_def
      split: if_splits option.splits prod.splits)

lemma assistants_one_run:
  "generate_methodology_summary_with_assistants api file_id name = Some (summary, analysed)
   \<Longrightarrow> length (filter (\<lambda>c. c = AssistantsCreate) analysed) = 1
     \<and> length (filter (\<lambda>c. c = RunsCreate) analysed) \<le> 1"
  by (auto simp: generate_methodology_summary_with_assistants_def Let_def
      split: if_splits option.splits prod.splits)

lemma assistants_terminal_state:
  assumes "assistants_create api" "threads_create api" "messages_create api"
    and "runs_create api = Some status0"
    and "settles (runs_retrieve api) 0 status0 n final" "final \<noteq> py ''completed''"
  shows "generate_methodology_summary_with_assistants api file_id name
    = Some (None, [AssistantsCreate, ThreadsCreate, MessagesCreate file_id, RunsCreate]
              @ replicate n RunsRetrieve)"
  using assms wait_settles [OF assms(5)]
  by (simp add: generate_methodology_summary_with_assistants_def)

lemma assistants_polling_raises:
  assumes "assistants_create api" "threads_create api" "messages_create api"
    and "runs_create api = Some status0"
    and "breaks (runs_retrieve api) 0 status0 n"
  shows "generate_methodology_summary_with_assistants api file_id name
    = Some (None, [AssistantsCreate, ThreadsCreate, MessagesCreate file_id, RunsCreate]
              @ replicate (Suc n) RunsRetrieve)"
  using assms wait_breaks [OF assms(5)]
  by (simp add: generate_methodology_summary_with_assistants_def)

lemma assistants_creation_raises:
  assumes "\<not> assistants_create api \<or> \<not> threads_create api \<or> \<not> messages_create api
     \<or> runs_create api = None"
  shows "\<exists>analysed. generate_methodology_summary_with_assistants api file_id name
    = Some (None, analysed)"
  using assms by (auto simp: generate_methodology_summary_with_assistants_def Let_def)

subsection \<open>The fallback\<close>

lemma chat_calls:
  "generate_methodology_summary_with_chat api file_id name = (summary, completed) \<Longrightarrow>
   filter is_chat completed = [ChatCompletionsCreate system_content (chat_prompt file_id)]"
  by (auto simp: generate_methodology_summary_with_chat_def split: option.splits if_splits)

lemma chat_prompt_contains: "contains file_id (chat_prompt file_id)"
  unfolding contains_def chat_prompt_def by (rule sublist_appendI)

lemma fallback_after_failure:
  assumes "files_create api = Some file_id" "file_id \<noteq> []"
    and "generate_methodology_summary_with_assistants api file_id name = Some (summary_a, analysed)"
    and "falsy summary_a"
  shows "\<exists>summary completed.
      generate_methodology_summary api name = Some (summary, FilesCreate name # analysed @ completed)
      \<and> generate_methodology_summary_with_chat api file_id name = (summary, completed)
      \<and> filter is_chat (FilesCreate name # analysed @ completed)
          = [ChatCompletionsCreate system_content (chat_prompt file_id)]"
proof -
  obtain summary completed
    where c: "generate_methodology_summary_with_chat api file_id name = (summary, completed)"
    by (cases "generate_methodology_summary_with_chat api file_id name")
  from assms c have "generate_methodology_summary api name
      = Some (summary, FilesCreate name # analysed @ completed)"
    by (simp add: generate_methodology_summary_def upload_pdf_to_openai_def)
  moreover have "filter is_chat (FilesCreate name # analysed @ completed)
          = [ChatCompletionsCreate system_content (chat_prompt file_id)]"
    using assistants_no_chat [OF assms(3)] chat_calls [OF c] by simp
  ultimately show ?thesis using c by blast
qed

lemma chat_no_run:
  "generate_methodology_summary_with_chat api file_id name = (summary, completed) \<Longrightarrow>
   filter (\<lambda>c. c = AssistantsCreate) completed = [] \<and> filter (\<lambda>c. c = RunsCreate) completed = []"
  by (auto simp: generate_methodology_summary_with_chat_def split: option.splits if_splits)

lemma strategy_a_fails_returns:
  assumes "strategy_a_fails api status0 n final"
  shows "\<exists>analysed. generate_methodology_summary_with_assistants api file_id name
    = Some (None, analysed)"
proof (cases "\<not> assistants_create api \<or> \<not> threads_create api \<or> \<not> messages_create api
     \<or> runs_create api = None")
  case True
  then show ?thesis by (rule assistants_creation_raises)
next
  case False
  with assms have r: "runs_create api = Some status0"
    and c: "breaks (runs_retrieve api) 0 status0 n
              \<or> (settles (runs_retrieve api) 0 status0 n final \<and> final \<noteq> py ''completed'')"
    by (auto simp: strategy_a_fails_def)
  from c show ?thesis
  proof
    assume "breaks (runs_retrieve api) 0 status0 n"
    with False r show ?thesis using assistants_polling_raises by blast
  next
    assume "settles (runs_retrieve api) 0 status0 n final \<and> final \<noteq> py ''completed''"
    with False r show ?thesis using assistants_terminal_state by blast
  qed
qed

lemma fallback_once_after_upload:
  assumes "files_create api = Some file_id" "file_id \<noteq> []"
    and "strategy_a_fails api status0 n final"
  shows "\<exists>analysed summary completed.
      generate_methodology_summary_with_assistants api file_id name = Some (None, analysed)
      \<and> generate_methodology_summary_with_chat api file_id name = (summary, completed)
      \<and> generate_methodology_summary api name = Some (summary, FilesCreate name # analysed @ completed)
      \<and> filter is_chat (FilesCreate name # analysed @ completed)
          = [ChatCompletionsCreate system_content (chat_prompt file_id)]
      \<and> contains file_id (chat_prompt file_id)
      \<and> length (filter (\<lambda>c. c = AssistantsCreate) (FilesCreate name # analysed @ completed)) = 1
      \<and> length (filter (\<lambda>c. c = RunsCreate) (FilesCreate name # analysed @ completed)) \<le> 1"
proof -
  from assms(3) obtain analysed
    where a: "generate_methodology_summary_with_assistants api file_id name = Some (None, analysed)"
    using strategy_a_fails_returns by blast
  have "falsy None" by (simp add: falsy_def)
  with fallback_after_failure [OF assms(1,2) a] obtain summary completed
    where g: "generate_methodology_summary api name = Some (summary, FilesCreate name # analysed @ completed)"
      and c: "generate_methodology_summary_with_chat api file_id name = (summary, completed)"
      and f: "filter is_chat (FilesCreate name # analysed @ completed)
          = [ChatCompletionsCreate system_content (chat_prompt file_id)]"
    by blast
  from assistants_one_run [OF a] chat_no_run [OF c]
  have "length (filter (\<lambda>c. c = AssistantsCreate) (FilesCreate name # analysed @ completed)) = 1
      \<and> length (filter (\<lambda>c. c = RunsCreate) (FilesCreate name # analysed @ completed)) \<le> 1"
    by simp
  with a g c f chat_prompt_contains show ?thesis by blast
qed

lemma no_upload_no_strategy:
  assumes "files_create api = None \<or> files_create api = Some []"
  shows "generate_methodology_summary api name = Some (None, [FilesCreate name])"
  using assms by (auto simp: generate_methodology_summary_def upload_pdf_to_openai_def)

text \<open>
  Claim C7, amended. When the upload succeeded (a non-empty file id) and Strategy A
  fails by a raise during assistant, thread, message or run creation, by a raise of a
  poll, or by a terminal status other than \<^verbatim>\<open>completed\<close>, then Strategy A returns no
  summary, the extraction returns, and among all calls it made there is exactly one chat
  completion, whose prompt contains the file id; the assistant is created once and a
  run at most once, so Strategy A is not retried. When the upload raises or yields an
  empty file id, the extraction returns no summary and the upload is the only call it
  made: no strategy is invoked, neither the assistant nor the chat completion.
\<close>

theorem fallback_invoked_once:
  "(files_create api = Some file_id \<and> file_id \<noteq> [] \<and> strategy_a_fails api status0 n final \<longrightarrow>
      (\<exists>analysed summary completed.
        generate_methodology_summary_with_assistants api file_id name = Some (None, analysed)
        \<and> generate_methodology_summary_with_chat api file_id name = (summary, completed)
        \<and> generate_methodology_summary api name = Some (summary, FilesCreate name # analysed @ completed)
        \<and> filter is_chat (FilesCreate name # analysed @ completed)
            = [ChatCompletionsCreate system_content (chat_prompt file_id)]
        \<and> contains file_id (chat_prompt file_id)
        \<and> length (filter (\<lambda>c. c = AssistantsCreate) (FilesCreate name # analysed @ completed)) = 1
        \<and> length (filter (\<lambda>c. c = RunsCreate) (FilesCreate name # analysed @ completed)) \<le> 1))
   \<and> (files_create api = None \<or> files_create api = Some [] \<longrightarrow>
        generate_methodology_summary api name = Some (None, [FilesCreate name])
        \<and> filter is_chat [FilesCreate name] = []
        \<and> filter (\<lambda>c. c = AssistantsCreate) [FilesCreate name] = [])"
proof (intro conjI impI)
  assume "files_create api = Some file_id \<and> file_id \<noteq> [] \<and> strategy_a_fails api status0 n final"
  then show "\<exists>analysed summary completed.
        generate_methodology_summary_with_assistants api file_id name = Some (None, analysed)
        \<and> generate_methodology_summary_with_chat api file_id name = (summary, completed)
        \<and> generate_methodology_summary api name = Some (summary, FilesCreate name # analysed @ completed)
        \<and> filter is_chat (FilesCreate name # analysed @ completed)
            = [ChatCompletionsCreate system_content (chat_prompt file_id)]
        \<and> contains file_id (chat_prompt file_id)
        \<and> length (filter (\<lambda>c. c = AssistantsCreate) (FilesCreate name # analysed @ completed)) = 1
        \<and> length (filter (\<lambda>c. c = RunsCreate) (FilesCreate name # analysed @ completed)) \<le> 1"
    using fallback_once_after_upload [of api file_id status0 n final name] by blast
next
  assume "files_create api = None \<or> files_create api = Some []"
  then show "generate_methodology_summary api name = Some (None, [FilesCreate name])"
    by (rule no_upload_no_strategy)
qed simp_all

text \<open>
  Claim C7, as stated, includes a raise during the upload among the failures after which
  Strategy B is invoked exactly once. When the upload raises there is no file id:
  \<^verbatim>\<open>generate_methodology_summary\<close> returns \<^verbatim>\<open>None\<close> after the upload call alone, and no chat
  completion is requested.
\<close>

theorem upload_failure_skips_fallback:
  "generate_methodology_summary failing_upload (py ''a1b2c3d4.pdf'')
     = Some (None, [FilesCreate (py ''a1b2c3d4.pdf'')])
   \<and> filter is_chat [FilesCreate (py ''a1b2c3d4.pdf'')] = []"
  by (simp add: generate_methodology_summary_def upload_pdf_to_openai_def failing_upload_def)

lemma failing_job_fails:
  "strategy_a_fails failing_job (py ''queued'') 2 (py ''failed'')"
  by (simp add: strategy_a_fails_def failing_job_def pending_def py_def numeral_2_eq_2)

lemma stem_pdf: "x \<noteq> [] \<Longrightarrow> stem (x @ py ''.pdf'') = x"
proof -
  assume x: "x \<noteq> []"
  have r: "rev (x @ py ''.pdf'') = py ''fdp'' @ 46 # rev x" by (simp add: py_def)
  have t: "takeWhile (\<lambda>c. c \<noteq> 46) (py ''fdp'' @ 46 # rev x) = py ''fdp''" by (simp add: py_def)
  have l: "length (py ''fdp'') = 3" "length (py ''.pdf'') = 4" by (simp_all add: py_def)
  have m: "46 \<in> set (x @ py ''.pdf'')" by (simp add: py_def)
  from x have "0 < length x" by simp
  then show ?thesis
    unfolding stem_def r t Let_def using m l by simp
qed

theorem fallback_invoked_once_witness:
  "files_create failing_job = Some (py ''file-abc123'')
   \<and> py ''file-abc123'' \<noteq> []
   \<and> strategy_a_fails failing_job (py ''queued'') 2 (py ''failed'')
   \<and> generate_methodology_summary_with_assistants failing_job (py ''file-abc123'') (py ''a1b2c3d4.pdf'')
       = Some (None, [AssistantsCreate, ThreadsCreate, MessagesCreate (py ''file-abc123''), RunsCreate,
            RunsRetrieve, RunsRetrieve])
   \<and> generate_methodology_summary failing_job (py ''a1b2c3d4.pdf'')
       = Some (Some (py ''SUMMARY''),
           [FilesCreate (py ''a1b2c3d4.pdf''), AssistantsCreate, ThreadsCreate,
            MessagesCreate (py ''file-abc123''), RunsCreate, RunsRetrieve, RunsRetrieve,
            ChatCompletionsCreate system_content (chat_prompt (py ''file-abc123'')),
            WriteSummary (py ''a1b2c3d4_methodology_summary.txt'')])
   \<and> contains (py ''file-abc123'') (chat_prompt (py ''file-abc123''))
   \<and> files_create failing_upload = None
   \<and> generate_methodology_summary failing_upload (py ''a1b2c3d4.pdf'')
       = Some (None, [FilesCreate (py ''a1b2c3d4.pdf'')])
   \<and> files_create empty_upload = Some []
   \<and> generate_methodology_summary empty_upload (py ''a1b2c3d4.pdf'')
       = Some (None, [FilesCreate (py ''a1b2c3d4.pdf'')])"
proof -
  have u: "files_create failing_job = Some (py ''file-abc123'')" "py ''file-abc123'' \<noteq> []"
    by (simp_all add: failing_job_def py_def)
  have a: "generate_methodology_summary_with_assistants failing_job (py ''file-abc123'') (py ''a1b2c3d4.pdf'')
       = Some (None, [AssistantsCreate, ThreadsCreate, MessagesCreate (py ''file-abc123''), RunsCreate,
            RunsRetrieve, RunsRetrieve])"
    using assistants_terminal_state [of failing_job "py ''queued''" 2 "py ''failed''"]
    by (simp add: failing_job_def pending_def py_def numeral_2_eq_2)
  have n: "summary_filename (py ''a1b2c3d4.pdf'') = py ''a1b2c3d4_methodology_summary.txt''"
    using stem_pdf [of "py ''a1b2c3d4''"] by (simp add: summary_filename_def py_def)
  have c: "generate_methodology_summary_with_chat failing_job (py ''file-abc123'') (py ''a1b2c3d4.pdf'')
       = (Some (py ''SUMMARY''), [ChatCompletionsCreate system_content (chat_prompt (py ''file-abc123'')),
            WriteSummary (py ''a1b2c3d4_methodology_summary.txt'')])"
    by (simp add: generate_methodology_summary_with_chat_def failing_job_def n)
  have fu: "files_create failing_upload = None" by (simp add: failing_upload_def)
  have eu: "files_create empty_upload = Some []" by (simp add: empty_upload_def)
  from fallback_invoked_once [of failing_job "py ''file-abc123''" "py ''queued''" 2 "py ''failed''"
      "py ''a1b2c3d4.pdf''"] u failing_job_fails a c
  have g: "generate_methodology_summary failing_job (py ''a1b2c3d4.pdf'')
       = Some (Some (py ''SUMMARY''),
           [FilesCreate (py ''a1b2c3d4.pdf''), AssistantsCreate, ThreadsCreate,
            MessagesCreate (py ''file-abc123''), RunsCreate, RunsRetrieve, RunsRetrieve,
            ChatCompletionsCreate system_content (chat_prompt (py ''file-abc123'')),
            WriteSummary (py ''a1b2c3d4_methodology_summary.txt'')])
     \<and> contains (py ''file-abc123'') (chat_prompt (py ''file-abc123''))"
    by auto
  from fallback_invoked_once [of failing_upload _ _ _ _ "py ''a1b2c3d4.pdf''"] fu
  have g1: "generate_methodology_summary failing_upload (py ''a1b2c3d4.pdf'')
       = Some (None, [FilesCreate (py ''a1b2c3d4.pdf'')])"
    by simp
  from fallback_invoked_once [of empty_upload _ _ _ _ "py ''a1b2c3d4.pdf''"] eu
  have g2: "generate_methodology_summary empty_upload (py ''a1b2c3d4.pdf'')
       = Some (None, [FilesCreate (py ''a1b2c3d4.pdf'')])"
    by simp
  from u a failing_job_fails g fu g1 eu g2 show ?thesis by simp
qed

section \<open>The batch: properties\<close>










end
